theory Spec2Isabelle
  imports Complex_Main "HOL-Library.Monad_Syntax"
begin

section \<open>Configuration values\<close>

text \<open>
  The three modules repeat the same block of constants. Python's \<^verbatim>\<open>//\<close> on integers
  is floor division and \<^verbatim>\<open>%\<close> takes the sign of the divisor, as \<open>div\<close> and \<open>mod\<close> on
  \<open>int\<close> do.
\<close>

definition DISPLAY_WIDTH :: int where
  "DISPLAY_WIDTH = 1200"

definition DISPLAY_HEIGHT :: int where
  "DISPLAY_HEIGHT = 900"

definition REPTILE_DIMENSION :: int where
  "REPTILE_DIMENSION = 20"

definition ORB_RESPAWN_TIME :: real where
  "ORB_RESPAWN_TIME = 20"

text \<open>
  A position and a direction are dictionaries with the two keys \<^verbatim>\<open>'x'\<close> and \<^verbatim>\<open>'y'\<close>; they
  are never mutated in place and are compared with \<^verbatim>\<open>==\<close>, that is by value.
\<close>

record point =
  px :: int
  py :: int

definition MOVE_RIGHT :: point where
  "MOVE_RIGHT = \<lparr>px = 1, py = 0\<rparr>"

definition MOVE_LEFT :: point where
  "MOVE_LEFT = \<lparr>px = -1, py = 0\<rparr>"

definition MOVE_UP :: point where
  "MOVE_UP = \<lparr>px = 0, py = -1\<rparr>"

definition MOVE_DOWN :: point where
  "MOVE_DOWN = \<lparr>px = 0, py = 1\<rparr>"

type_synonym colour = "nat \<times> nat \<times> nat"

definition COLOR_YELLOW :: colour where
  "COLOR_YELLOW = (255, 223, 0)"

definition COLOR_ORANGE :: colour where
  "COLOR_ORANGE = (255, 69, 0)"

section \<open>reptile.py\<close>

text \<open>
  An exception that leaves a method is the result \<open>None\<close>. The only raise points of the
  class are the reads \<^verbatim>\<open>self.segments[0]\<close> and \<^verbatim>\<open>self.segments[-1]\<close>, an IndexError on an
  empty list.
\<close>

record Reptile =
  segments :: "point list"
  move_direction :: point
  tint :: colour
  vitality :: int
  tally :: int

definition Reptile_init :: "point \<Rightarrow> point \<Rightarrow> colour \<Rightarrow> Reptile" where
  "Reptile_init start_position direction colour =
     \<lparr>segments = [start_position], move_direction = direction, tint = colour,
      vitality = 100, tally = 0\<rparr>"

text \<open>\<^verbatim>\<open>insert(0, new_head)\<close> followed by \<^verbatim>\<open>pop()\<close>.\<close>

definition move :: "Reptile \<Rightarrow> Reptile option" where
  "move r =
     (case segments r of
        [] \<Rightarrow> None
      | h # _ \<Rightarrow>
          let new_head =
            \<lparr>px = (px h + px (move_direction r)) mod (DISPLAY_WIDTH div REPTILE_DIMENSION),
             py = (py h + py (move_direction r)) mod (DISPLAY_HEIGHT div REPTILE_DIMENSION)\<rparr>
          in Some (r\<lparr>segments := butlast (new_head # segments r)\<rparr>))"

definition expand :: "Reptile \<Rightarrow> Reptile option" where
  "expand r =
     (case segments r of
        [] \<Rightarrow> None
      | _ # _ \<Rightarrow> Some (r\<lparr>segments := segments r @ [last (segments r)]\<rparr>))"

definition detect_collision :: "Reptile \<Rightarrow> point \<Rightarrow> bool option" where
  "detect_collision r item =
     (case segments r of
        [] \<Rightarrow> None
      | h # _ \<Rightarrow> Some (px h = px item \<and> py h = py item))"

definition detect_self_impact :: "Reptile \<Rightarrow> bool option" where
  "detect_self_impact r =
     (case segments r of
        [] \<Rightarrow> None
      | h # rest \<Rightarrow> Some (h \<in> set rest))"

section \<open>vitalityorb.py\<close>

text \<open>
  An orb holds the coordinates drawn by \<^verbatim>\<open>regenerate\<close>: \<^verbatim>\<open>randint(0, 59)\<close> and
  \<^verbatim>\<open>randint(0, 44)\<close>, both bounds included. The draw is an input of the model.
\<close>

record VitalityOrb =
  coordinates :: point

definition in_grid :: "point \<Rightarrow> bool" where
  "in_grid p \<longleftrightarrow>
     0 \<le> px p \<and> px p \<le> DISPLAY_WIDTH div REPTILE_DIMENSION - 1 \<and>
     0 \<le> py p \<and> py p \<le> DISPLAY_HEIGHT div REPTILE_DIMENSION - 1"

section \<open>matchcontroller.py: the state\<close>

text \<open>
  A button is a \<^verbatim>\<open>pygame.Rect\<close>. A Rect is true when its width and height are both
  non-zero, and \<^verbatim>\<open>collidepoint\<close> includes the left and top edges and excludes the right and
  bottom ones.
\<close>

record Rect =
  rx :: int
  ry :: int
  rw :: int
  rh :: int

definition collidepoint :: "Rect \<Rightarrow> int \<times> int \<Rightarrow> bool" where
  "collidepoint r p \<longleftrightarrow>
     rx r \<le> fst p \<and> fst p < rx r + rw r \<and> ry r \<le> snd p \<and> snd p < ry r + rh r"

text \<open>
  The attributes that only serve the display (canvas, timer, graphics) are left out. The
  score dictionary has the two fixed keys \<^verbatim>\<open>"Combatant 1"\<close> and \<^verbatim>\<open>"Combatant 2"\<close>: a pair of
  lists.
\<close>

record MatchController =
  isActive :: bool
  isInPlay :: bool
  isPaused :: bool
  isOver :: bool
  scoresReady :: bool
  combatant1 :: Reptile
  combatant2 :: Reptile
  restorativeOrbs :: "VitalityOrb list"
  lastOrbRegen :: real
  nourishment :: point
  controls :: "string \<rightharpoonup> Rect"
  totalRounds :: int
  currentBattle :: int
  isAcceptingInput :: bool
  enteredText :: string
  battleScores :: "int list \<times> int list"

text \<open>
  What one call of \<^verbatim>\<open>advance_game\<close> (or of the session restart) reads from outside: the
  clock, and the random draws of each place that may draw, in the order of the code. The
  clock is a float in the program and a real number here; no claim depends on its
  rounding.
\<close>

record env =
  clock :: real
  orb_cell :: point
  reset_food :: point
  reset_clock :: real
  food1 :: point
  food2 :: point

definition spawn1 :: Reptile where
  "spawn1 = Reptile_init \<lparr>px = 5, py = DISPLAY_HEIGHT div REPTILE_DIMENSION div 2\<rparr>
              MOVE_RIGHT COLOR_YELLOW"

definition spawn2 :: Reptile where
  "spawn2 = Reptile_init \<lparr>px = DISPLAY_WIDTH div REPTILE_DIMENSION - 5,
                            py = DISPLAY_HEIGHT div REPTILE_DIMENSION div 2\<rparr>
              MOVE_LEFT COLOR_ORANGE"

definition MatchController_init :: "real \<Rightarrow> point \<Rightarrow> MatchController" where
  "MatchController_init now food =
     \<lparr>isActive = True, isInPlay = False, isPaused = False, isOver = False,
      scoresReady = False, combatant1 = spawn1, combatant2 = spawn2,
      restorativeOrbs = [], lastOrbRegen = now, nourishment = food,
      controls = Map.empty, totalRounds = 0, currentBattle = 1,
      isAcceptingInput = False, enteredText = [], battleScores = ([], [])\<rparr>"

section \<open>matchcontroller.py: one tick\<close>

definition replenish_vitality_orbs :: "env \<Rightarrow> MatchController \<Rightarrow> MatchController" where
  "replenish_vitality_orbs e g =
     (if clock e - lastOrbRegen g \<ge> ORB_RESPAWN_TIME
      then g\<lparr>restorativeOrbs := restorativeOrbs g @ [\<lparr>coordinates = orb_cell e\<rparr>],
             lastOrbRegen := clock e\<rparr>
      else g)"

text \<open>
  The edge checks of \<^verbatim>\<open>advance_game\<close>, written twice in the source, once for each
  combatant, with the same text.
\<close>

definition edge_check :: "Reptile \<Rightarrow> Reptile option" where
  "edge_check r =
     (case segments r of
        [] \<Rightarrow> None
      | h # _ \<Rightarrow>
          let r1 = (if px h \<le> 0 then r\<lparr>vitality := vitality r - 5\<rparr>
                    else if px h \<ge> DISPLAY_WIDTH div REPTILE_DIMENSION
                    then r\<lparr>vitality := vitality r - 5\<rparr> else r);
              r2 = (if py h \<le> 0 then r1\<lparr>vitality := vitality r1 - 5\<rparr>
                    else if py h \<ge> DISPLAY_HEIGHT div REPTILE_DIMENSION
                    then r1\<lparr>vitality := vitality r1 - 5\<rparr> else r1)
          in Some r2)"

definition initialize_next_battle :: "env \<Rightarrow> MatchController \<Rightarrow> MatchController" where
  "initialize_next_battle e g =
     g\<lparr>combatant1 := spawn1\<lparr>vitality := 100\<rparr>,
       combatant2 := spawn2\<lparr>vitality := 100\<rparr>,
       nourishment := reset_food e,
       restorativeOrbs := [],
       lastOrbRegen := reset_clock e\<rparr>"

text \<open>
  Modelled from the spec: \<^verbatim>\<open>MatchController.archive_scores\<close>, which \<^verbatim>\<open>advance_game\<close> calls and
  whose definition is not in the source files. The spec (4.3): "archive both creatures'
  scores for the current battle", the score history being a "per-creature ordered list of
  per-battle scores".
\<close>

definition archive_scores :: "MatchController \<Rightarrow> MatchController option" where
  "archive_scores g =
     Some (g\<lparr>battleScores :=
       (fst (battleScores g) @ [tally (combatant1 g)],
        snd (battleScores g) @ [tally (combatant2 g)])\<rparr>)"

text \<open>The block under the comment "Terminating the battle".\<close>

definition terminate_battle :: "env \<Rightarrow> MatchController \<Rightarrow> MatchController option" where
  "terminate_battle e g =
     (if vitality (combatant1 g) \<le> 0 \<or> vitality (combatant2 g) \<le> 0
      then do {
        g1 \<leftarrow> archive_scores g;
        if currentBattle g1 < totalRounds g1
        then Some (initialize_next_battle e (g1\<lparr>currentBattle := currentBattle g1 + 1\<rparr>))
        else Some (g1\<lparr>isOver := True\<rparr>)
      }
      else Some g)"

text \<open>
  \<^verbatim>\<open>list.remove\<close> deletes the first element equal to its argument and raises ValueError when
  there is none. Orb objects are compared by identity in the program; the loop below
  removes exactly the orbs it visits and finds on a head, so the list it leaves is the
  same under both readings (\<open>consume_orbs_filter\<close>).
\<close>

definition list_remove :: "'a \<Rightarrow> 'a list \<Rightarrow> 'a list option" where
  "list_remove v xs = (if v \<in> set xs then Some (remove1 v xs) else None)"

text \<open>
  The loop over the copy \<^verbatim>\<open>self.restorativeOrbs[:]\<close>: the first argument is what remains of
  the copy.
\<close>

fun consume_orbs :: "VitalityOrb list \<Rightarrow> MatchController \<Rightarrow> MatchController option" where
  "consume_orbs [] g = Some g"
| "consume_orbs (orb # rest) g = do {
     hit1 \<leftarrow> detect_collision (combatant1 g) (coordinates orb);
     if hit1 then do {
       orbs \<leftarrow> list_remove orb (restorativeOrbs g);
       consume_orbs rest
         (g\<lparr>restorativeOrbs := orbs,
            combatant1 := (combatant1 g)\<lparr>vitality := min (vitality (combatant1 g) + 30) 100\<rparr>\<rparr>)
     } else do {
       hit2 \<leftarrow> detect_collision (combatant2 g) (coordinates orb);
       if hit2 then do {
         orbs \<leftarrow> list_remove orb (restorativeOrbs g);
         consume_orbs rest
           (g\<lparr>restorativeOrbs := orbs,
              combatant2 := (combatant2 g)\<lparr>vitality := min (vitality (combatant2 g) + 30) 100\<rparr>\<rparr>)
       } else consume_orbs rest g
     }
   }"

definition head :: "Reptile \<Rightarrow> point option" where
  "head r = (case segments r of [] \<Rightarrow> None | h # _ \<Rightarrow> Some h)"

text \<open>The two checks under the comment "Checking for collisions between combatants".\<close>

definition combatant_collisions :: "MatchController \<Rightarrow> MatchController option" where
  "combatant_collisions g = do {
     h1 \<leftarrow> head (combatant1 g);
     let g1 = (if h1 \<in> set (segments (combatant2 g))
               then g\<lparr>combatant1 := (combatant1 g)\<lparr>vitality := vitality (combatant1 g) - 5\<rparr>\<rparr>
               else g);
     h2 \<leftarrow> head (combatant2 g1);
     Some (if h2 \<in> set (segments (combatant1 g1))
           then g1\<lparr>combatant2 := (combatant2 g1)\<lparr>vitality := vitality (combatant2 g1) - 5\<rparr>\<rparr>
           else g1)
   }"

definition feed1 :: "env \<Rightarrow> MatchController \<Rightarrow> MatchController option" where
  "feed1 e g = do {
     hit \<leftarrow> detect_collision (combatant1 g) (nourishment g);
     if hit then do {
       c \<leftarrow> expand ((combatant1 g)\<lparr>tally := tally (combatant1 g) + 5\<rparr>);
       Some (g\<lparr>nourishment := food1 e, combatant1 := c\<rparr>)
     } else Some g
   }"

definition feed2 :: "env \<Rightarrow> MatchController \<Rightarrow> MatchController option" where
  "feed2 e g = do {
     hit \<leftarrow> detect_collision (combatant2 g) (nourishment g);
     if hit then do {
       c \<leftarrow> expand ((combatant2 g)\<lparr>tally := tally (combatant2 g) + 5\<rparr>);
       Some (g\<lparr>nourishment := food2 e, combatant2 := c\<rparr>)
     } else Some g
   }"

text \<open>
  The tick up to and including the edge checks, and the rest of it. \<^verbatim>\<open>advance_game\<close> has no
  \<^verbatim>\<open>return\<close>: every statement after the block that ends a battle runs on what that block
  leaves.
\<close>

definition move_and_edges :: "env \<Rightarrow> MatchController \<Rightarrow> MatchController option" where
  "move_and_edges e g = do {
     let g0 = replenish_vitality_orbs e g;
     c1 \<leftarrow> move (combatant1 g0);
     c2 \<leftarrow> move (combatant2 g0);
     c1' \<leftarrow> edge_check c1;
     c2' \<leftarrow> edge_check c2;
     Some (g0\<lparr>combatant1 := c1', combatant2 := c2'\<rparr>)
   }"

definition interactions :: "env \<Rightarrow> MatchController \<Rightarrow> MatchController option" where
  "interactions e g = do {
     g1 \<leftarrow> consume_orbs (restorativeOrbs g) g;
     g2 \<leftarrow> combatant_collisions g1;
     g3 \<leftarrow> feed1 e g2;
     feed2 e g3
   }"

definition advance_game :: "env \<Rightarrow> MatchController \<Rightarrow> MatchController option" where
  "advance_game e g = do {
     g1 \<leftarrow> move_and_edges e g;
     g2 \<leftarrow> terminate_battle e g1;
     interactions e g2
   }"

section \<open>matchcontroller.py: interactions\<close>

text \<open>
  \<^verbatim>\<open>int(text)\<close> in base ten: white space around the number is dropped, one sign may come
  first, and single underscores may stand between digits; anything else raises
  ValueError, here \<open>None\<close>. A text is a list of code points below 256. Only texts typed
  through the key handler below, which are made of digit characters, reach the call. The
  interpreter's limit on the number of digits (4300 by default in recent versions, a
  ValueError beyond it) is left out.
\<close>

definition is_space :: "char \<Rightarrow> bool" where
  "is_space c \<longleftrightarrow> of_char c \<in> {9, 10, 11, 12, 13, 32, 133, 160 :: nat}"

definition is_decimal :: "char \<Rightarrow> bool" where
  "is_decimal c \<longleftrightarrow> 48 \<le> (of_char c :: nat) \<and> (of_char c :: nat) \<le> 57"

fun digits :: "bool \<Rightarrow> int \<Rightarrow> string \<Rightarrow> int option" where
  "digits need acc [] = (if need then None else Some acc)"
| "digits need acc (c # cs) =
     (if is_decimal c then digits False (10 * acc + (of_char c - 48)) cs
      else if c = CHR ''_'' \<and> \<not> need then digits True acc cs
      else None)"

definition py_int :: "string \<Rightarrow> int option" where
  "py_int s =
     (case rev (dropWhile is_space (rev (dropWhile is_space s))) of
        [] \<Rightarrow> None
      | c # cs \<Rightarrow>
          if c = CHR ''-'' then map_option uminus (digits True 0 cs)
          else if c = CHR ''+'' then digits True 0 cs
          else digits True 0 (c # cs))"

text \<open>
  \<^verbatim>\<open>str.isdigit\<close>: a non-empty text of digit characters; below 256 these are the ten decimal
  digits and the superscripts one, two and three.
\<close>

definition isdigit :: "string \<Rightarrow> bool" where
  "isdigit s \<longleftrightarrow>
     s \<noteq> [] \<and> list_all (\<lambda>c. is_decimal c \<or> of_char c \<in> {178, 179, 185 :: nat}) s"

datatype key =
  K_BACKSPACE | K_w | K_a | K_s | K_d | K_UP | K_LEFT | K_DOWN | K_RIGHT | K_OTHER nat

datatype interaction =
  QUIT
| MOUSEBUTTONDOWN "int \<times> int"
| KEYDOWN key string
| OTHER_EVENT

text \<open>
  \<^verbatim>\<open>self.controls.get(name) and self.controls[name].collidepoint(pos)\<close>: false when the
  button is not there or is an empty Rect.
\<close>

definition clicked :: "MatchController \<Rightarrow> string \<Rightarrow> int \<times> int \<Rightarrow> bool" where
  "clicked g name p =
     (case controls g name of
        None \<Rightarrow> False
      | Some r \<Rightarrow> rw r \<noteq> 0 \<and> rh r \<noteq> 0 \<and> collidepoint r p)"

text \<open>
  Modelled from the spec: \<^verbatim>\<open>MatchController.restart_battle\<close>, which the replay button calls
  and whose definition is not in the source files. The spec (4.3): "SESSION_OVER
  --replay_pressed--> CONFIGURING_ROUNDS equivalent reset (clears score history,
  reinitializes): restart full session", that reset being "resets battle index to 1,
  initializes both creatures, food, and power-up set".
\<close>

definition restart_battle :: "env \<Rightarrow> MatchController \<Rightarrow> MatchController option" where
  "restart_battle e g =
     Some (initialize_next_battle e
       (g\<lparr>battleScores := ([], []), currentBattle := 1, isOver := False\<rparr>))"

text \<open>The confirm button: the \<^verbatim>\<open>try\<close> block and its \<^verbatim>\<open>except ValueError\<close>.\<close>

definition confirm_rounds :: "MatchController \<Rightarrow> MatchController" where
  "confirm_rounds g =
     (case py_int (enteredText g) of
        Some n \<Rightarrow> g\<lparr>totalRounds := n, enteredText := [], isAcceptingInput := False,
                     isInPlay := True\<rparr>
      | None \<Rightarrow> g\<lparr>enteredText := []\<rparr>)"

definition on_mouse_button_down ::
  "env \<Rightarrow> int \<times> int \<Rightarrow> MatchController \<Rightarrow> MatchController option" where
  "on_mouse_button_down e p g =
     (if isAcceptingInput g then
        (if clicked g ''confirm'' p then Some (confirm_rounds g) else Some g)
      else if clicked g ''initiate'' p then
        Some (g\<lparr>isAcceptingInput := True, isInPlay := False\<rparr>)
      else if isOver g then
        (if clicked g ''replay'' p then restart_battle e g
         else if clicked g ''end'' p then Some (g\<lparr>isActive := False\<rparr>)
         else Some g)
      else
        (if \<not> isInPlay g \<and> \<not> isAcceptingInput g then
           (if clicked g ''initiate'' p then Some (g\<lparr>isAcceptingInput := True\<rparr>)
            else if clicked g ''end'' p then Some (g\<lparr>isActive := False\<rparr>)
            else Some g)
         else Some g))"

text \<open>The two chains of guarded assignments of the key handler, one for each combatant.\<close>

definition steer1 :: "key \<Rightarrow> point \<Rightarrow> point" where
  "steer1 k d =
     (if k = K_w \<and> d \<noteq> MOVE_DOWN then MOVE_UP
      else if k = K_a \<and> d \<noteq> MOVE_RIGHT then MOVE_LEFT
      else if k = K_s \<and> d \<noteq> MOVE_UP then MOVE_DOWN
      else if k = K_d \<and> d \<noteq> MOVE_LEFT then MOVE_RIGHT
      else d)"

definition steer2 :: "key \<Rightarrow> point \<Rightarrow> point" where
  "steer2 k d =
     (if k = K_UP \<and> d \<noteq> MOVE_DOWN then MOVE_UP
      else if k = K_LEFT \<and> d \<noteq> MOVE_RIGHT then MOVE_LEFT
      else if k = K_DOWN \<and> d \<noteq> MOVE_UP then MOVE_DOWN
      else if k = K_RIGHT \<and> d \<noteq> MOVE_LEFT then MOVE_RIGHT
      else d)"

definition on_key_down :: "key \<Rightarrow> string \<Rightarrow> MatchController \<Rightarrow> MatchController" where
  "on_key_down k u g =
     (if isAcceptingInput g then
        (if k = K_BACKSPACE then g\<lparr>enteredText := butlast (enteredText g)\<rparr>
         else if isdigit u then g\<lparr>enteredText := enteredText g @ u\<rparr>
         else g)
      else if isInPlay g \<and> \<not> isPaused g then
        g\<lparr>combatant1 :=
             (combatant1 g)\<lparr>move_direction := steer1 k (move_direction (combatant1 g))\<rparr>,
           combatant2 :=
             (combatant2 g)\<lparr>move_direction := steer2 k (move_direction (combatant2 g))\<rparr>\<rparr>
      else g)"

text \<open>
  The loop over \<^verbatim>\<open>pygame.event.get()\<close>: every event queued since the last frame is handled
  in one call, in order, each on the state the one before left.
\<close>

fun handle :: "env \<Rightarrow> interaction \<Rightarrow> MatchController \<Rightarrow> MatchController option" where
  "handle e QUIT g = Some (g\<lparr>isActive := False\<rparr>)"
| "handle e (MOUSEBUTTONDOWN p) g = on_mouse_button_down e p g"
| "handle e (KEYDOWN k u) g = Some (on_key_down k u g)"
| "handle e OTHER_EVENT g = Some g"

fun manage_interactions ::
  "env \<Rightarrow> interaction list \<Rightarrow> MatchController \<Rightarrow> MatchController option" where
  "manage_interactions e [] g = Some g"
| "manage_interactions e (i # rest) g = do {
     g1 \<leftarrow> handle e i g;
     manage_interactions e rest g1
   }"

section \<open>Runs\<close>

text \<open>
  The main loop is not in the source files. A run is any sequence of calls of the two
  methods it drives: a tick, or the handling of the events queued since the last frame.
\<close>

datatype step = Tick env | Input env "interaction list"

fun do_step :: "step \<Rightarrow> MatchController \<Rightarrow> MatchController option" where
  "do_step (Tick e) g = advance_game e g"
| "do_step (Input e is) g = manage_interactions e is g"

fun run :: "step list \<Rightarrow> MatchController \<Rightarrow> MatchController option" where
  "run [] g = Some g"
| "run (s # rest) g = do { g1 \<leftarrow> do_step s g; run rest g1 }"

section \<open>Auxiliary notions\<close>

text \<open>Names for what the statements below speak of; none of them is part of the program.\<close>

definition edge_loss :: "point \<Rightarrow> int" where
  "edge_loss h = (if px h = 0 then 5 else 0) + (if py h = 0 then 5 else 0)"

definition bodies_ok :: "MatchController \<Rightarrow> bool" where
  "bodies_ok g \<longleftrightarrow> segments (combatant1 g) \<noteq> [] \<and> segments (combatant2 g) \<noteq> []"

definition next_head :: "Reptile \<Rightarrow> point" where
  "next_head r =
     \<lparr>px = (px (hd (segments r)) + px (move_direction r)) mod 60,
      py = (py (hd (segments r)) + py (move_direction r)) mod 45\<rparr>"

definition after_move :: "Reptile \<Rightarrow> Reptile" where
  "after_move r =
     r\<lparr>segments := next_head r # butlast (segments r),
       vitality := vitality r - edge_loss (next_head r)\<rparr>"

definition heal :: "int \<Rightarrow> int" where
  "heal v = min (v + 30) 100"

definition downed :: "MatchController \<Rightarrow> bool" where
  "downed g \<longleftrightarrow> vitality (combatant1 g) \<le> 0 \<or> vitality (combatant2 g) \<le> 0"

definition downed_after_edges :: "env \<Rightarrow> MatchController \<Rightarrow> bool" where
  "downed_after_edges e g =
     (case move_and_edges e g of None \<Rightarrow> False | Some g1 \<Rightarrow> downed g1)"

definition session_kept :: "MatchController \<Rightarrow> MatchController \<Rightarrow> bool" where
  "session_kept g g' \<longleftrightarrow>
     currentBattle g' = currentBattle g \<and> totalRounds g' = totalRounds g \<and>
     isOver g' = isOver g \<and> isInPlay g' = isInPlay g \<and> battleScores g' = battleScores g"

definition bodies_grow :: "MatchController \<Rightarrow> MatchController \<Rightarrow> bool" where
  "bodies_grow g g' \<longleftrightarrow>
     bodies_ok g' \<and>
     length (segments (combatant1 g)) \<le> length (segments (combatant1 g')) \<and>
     length (segments (combatant2 g)) \<le> length (segments (combatant2 g')) \<and>
     hd (segments (combatant1 g')) = hd (segments (combatant1 g)) \<and>
     hd (segments (combatant2 g')) = hd (segments (combatant2 g)) \<and>
     move_direction (combatant1 g') = move_direction (combatant1 g) \<and>
     move_direction (combatant2 g') = move_direction (combatant2 g)"

definition health_capped :: "MatchController \<Rightarrow> bool" where
  "health_capped g \<longleftrightarrow> vitality (combatant1 g) \<le> 100 \<and> vitality (combatant2 g) \<le> 100"

fun no_click :: "interaction \<Rightarrow> bool" where
  "no_click (MOUSEBUTTONDOWN p) = False"
| "no_click _ = True"

fun play_step :: "step \<Rightarrow> bool" where
  "play_step (Tick e) = True"
| "play_step (Input e is) = list_all no_click is"

fun ends_battle :: "step \<Rightarrow> MatchController \<Rightarrow> bool" where
  "ends_battle (Tick e) g = downed_after_edges e g"
| "ends_battle (Input e is) g = False"

fun battle_ends :: "step list \<Rightarrow> MatchController \<Rightarrow> nat" where
  "battle_ends [] g = 0"
| "battle_ends (s # rest) g =
     (case do_step s g of
        None \<Rightarrow> 0
      | Some g1 \<Rightarrow> (if ends_battle s g then 1 else 0) + battle_ends rest g1)"

section \<open>Example states and runs\<close>

text \<open>
  The concrete inputs of the examples below. In \<open>e0\<close> the clock stands at 0, so that no
  orb spawns, and every draw of the food is the cell \<open>(30, 40)\<close>, which no combatant of
  the examples enters.
\<close>

definition e0 :: env where
  "e0 = \<lparr>clock = 0, orb_cell = \<lparr>px = 0, py = 0\<rparr>, reset_food = \<lparr>px = 30, py = 40\<rparr>,
         reset_clock = 0, food1 = \<lparr>px = 30, py = 40\<rparr>, food2 = \<lparr>px = 30, py = 40\<rparr>\<rparr>"

text \<open>
  The buttons as \<^verbatim>\<open>display\<close> places them. \<^verbatim>\<open>render_button\<close> is not in the source files; the
  size is \<^verbatim>\<open>ACTION_WIDTH\<close> by \<^verbatim>\<open>ACTION_HEIGHT\<close>.
\<close>

definition buttons :: "string \<rightharpoonup> Rect" where
  "buttons =
     [''initiate'' \<mapsto> \<lparr>rx = 550, ry = 275, rw = 100, rh = 50\<rparr>,
      ''replay'' \<mapsto> \<lparr>rx = 550, ry = 350, rw = 100, rh = 50\<rparr>,
      ''end'' \<mapsto> \<lparr>rx = 550, ry = 425, rw = 100, rh = 50\<rparr>,
      ''confirm'' \<mapsto> \<lparr>rx = 550, ry = 500, rw = 100, rh = 50\<rparr>]"

definition fresh :: "point \<Rightarrow> MatchController" where
  "fresh food = (MatchController_init 0 food)\<lparr>controls := buttons\<rparr>"

definition in_play :: "point \<Rightarrow> int \<Rightarrow> MatchController" where
  "in_play food n = (fresh food)\<lparr>totalRounds := n, isInPlay := True\<rparr>"

text \<open>States in the middle of a battle.\<close>

definition two_orbs :: MatchController where
  "two_orbs =
     (MatchController_init 0 \<lparr>px = 30, py = 40\<rparr>)
       \<lparr>isInPlay := True, totalRounds := 1,
        combatant1 := spawn1\<lparr>vitality := 10\<rparr>,
        restorativeOrbs := [\<lparr>coordinates = \<lparr>px = 6, py = 22\<rparr>\<rparr>,
                            \<lparr>coordinates = \<lparr>px = 6, py = 22\<rparr>\<rparr>]\<rparr>"

definition at_edges :: MatchController where
  "at_edges =
     (MatchController_init 0 \<lparr>px = 30, py = 40\<rparr>)
       \<lparr>isInPlay := True, totalRounds := 1,
        combatant1 := spawn1\<lparr>segments := [\<lparr>px = 59, py = 44\<rparr>]\<rparr>,
        combatant2 := spawn2\<lparr>segments := [\<lparr>px = 0, py = 1\<rparr>], move_direction := MOVE_UP\<rparr>\<rparr>"

definition on_two_orbs :: MatchController where
  "on_two_orbs = two_orbs\<lparr>combatant1 := spawn1\<lparr>vitality := 10, segments := [\<lparr>px = 6, py = 22\<rparr>]\<rparr>\<rparr>"

text \<open>
  The start button, the keys of a text and the confirm button; then the walks of
  combatant 1 used in the examples: to the cell \<open>(0, 1)\<close>, which it reaches with health 5,
  and up the first column until its health is 0.
\<close>

definition enter_rounds :: "string \<Rightarrow> step list" where
  "enter_rounds txt =
     [Input e0 [MOUSEBUTTONDOWN (560, 280)],
      Input e0 (map (\<lambda>c. KEYDOWN (K_OTHER (of_char c)) [c]) txt),
      Input e0 [MOUSEBUTTONDOWN (560, 510)]]"

definition to_the_corner :: "step list" where
  "to_the_corner =
     Input e0 [KEYDOWN K_w ''w''] # replicate 3 (Tick e0)
     @ Input e0 [KEYDOWN K_a ''a''] # replicate 5 (Tick e0)
     @ Input e0 [KEYDOWN K_w ''w''] # replicate 18 (Tick e0)"

definition e_orb :: env where
  "e_orb = e0\<lparr>clock := 20\<rparr>"

definition lost_battle :: "step list" where
  "lost_battle =
     Input e0 [KEYDOWN K_w ''w''] # Tick e0
     # Input e0 [KEYDOWN K_a ''a''] # replicate 5 (Tick e0)
     @ Input e0 [KEYDOWN K_w ''w''] # replicate 19 (Tick e0)"

definition last_stand :: MatchController where
  "last_stand =
     (in_play \<lparr>px = 30, py = 40\<rparr> 3)
       \<lparr>combatant1 := spawn1\<lparr>segments := [\<lparr>px = 0, py = 3\<rparr>], move_direction := MOVE_UP,
                               vitality := 5, tally := 15\<rparr>\<rparr>"

section \<open>Movement\<close>

lemma grid_width: "DISPLAY_WIDTH div REPTILE_DIMENSION = 60"
  by (simp add: DISPLAY_WIDTH_def REPTILE_DIMENSION_def)

lemma grid_height: "DISPLAY_HEIGHT div REPTILE_DIMENSION = 45"
  by (simp add: DISPLAY_HEIGHT_def REPTILE_DIMENSION_def)

lemma move_Some:
  "segments r = h # rest \<Longrightarrow>
   move r = Some (r\<lparr>segments :=
     \<lparr>px = (px h + px (move_direction r)) mod 60,
      py = (py h + py (move_direction r)) mod 45\<rparr> # butlast (h # rest)\<rparr>)"
  by (simp add: move_def grid_width grid_height)

text \<open>
  C1. For a creature with a non-empty body, whatever its direction (so in particular for
  the four unit directions), \<open>move\<close> returns normally; the new head is the old head plus
  the direction, componentwise modulo the grid dimensions 60 and 45; it stands in front of
  the old body without its last segment, so the length is unchanged and the segment at
  index \<open>i + 1\<close> is the segment that was at index \<open>i\<close>; no other attribute changes.
\<close>

theorem move_wraps_and_shifts:
  assumes "segments r \<noteq> []"
  shows "\<exists>r'. move r = Some r'
           \<and> DISPLAY_WIDTH div REPTILE_DIMENSION = 60
           \<and> DISPLAY_HEIGHT div REPTILE_DIMENSION = 45
           \<and> hd (segments r') =
               \<lparr>px = (px (hd (segments r)) + px (move_direction r)) mod 60,
                py = (py (hd (segments r)) + py (move_direction r)) mod 45\<rparr>
           \<and> segments r' = hd (segments r') # butlast (segments r)
           \<and> length (segments r') = length (segments r)
           \<and> (\<forall>i. Suc i < length (segments r) \<longrightarrow> segments r' ! Suc i = segments r ! i)
           \<and> move_direction r' = move_direction r \<and> tint r' = tint r
           \<and> vitality r' = vitality r \<and> tally r' = tally r"
proof -
  from assms obtain h rest where s: "segments r = h # rest"
    by (cases "segments r") auto
  have nth: "butlast (h # rest) ! i = (h # rest) ! i" if "Suc i < length (h # rest)" for i
    using that by (intro nth_butlast) (simp del: butlast.simps)
  have len: "length (butlast (h # rest)) = length rest"
    by (simp del: butlast.simps)
  show ?thesis
    using s nth len by (simp add: move_Some grid_width grid_height del: butlast.simps)
qed

theorem move_wraps_and_shifts_witness:
  "segments (Reptile_init \<lparr>px = 59, py = 0\<rparr> MOVE_RIGHT COLOR_YELLOW) \<noteq> []
   \<and> map_option segments (move (Reptile_init \<lparr>px = 59, py = 0\<rparr> MOVE_RIGHT COLOR_YELLOW))
       = Some [\<lparr>px = 0, py = 0\<rparr>]
   \<and> map_option segments
        (move \<lparr>segments = [\<lparr>px = 3, py = 0\<rparr>, \<lparr>px = 4, py = 0\<rparr>, \<lparr>px = 5, py = 0\<rparr>],
               move_direction = MOVE_UP, tint = COLOR_ORANGE, vitality = 100, tally = 0\<rparr>)
       = Some [\<lparr>px = 3, py = 44\<rparr>, \<lparr>px = 3, py = 0\<rparr>, \<lparr>px = 4, py = 0\<rparr>]"
proof -
  let ?a = "Reptile_init \<lparr>px = 59, py = 0\<rparr> MOVE_RIGHT COLOR_YELLOW"
  let ?b = "\<lparr>segments = [\<lparr>px = 3, py = 0\<rparr>, \<lparr>px = 4, py = 0\<rparr>, \<lparr>px = 5, py = 0\<rparr>],
             move_direction = MOVE_UP, tint = COLOR_ORANGE, vitality = 100, tally = 0\<rparr>"
  have a: "segments ?a \<noteq> []" by (simp add: Reptile_init_def)
  have b: "segments ?b \<noteq> []" by simp
  show ?thesis
    using move_wraps_and_shifts [OF a] move_wraps_and_shifts [OF b] a
    by (auto simp: Reptile_init_def MOVE_RIGHT_def MOVE_UP_def)
qed

section \<open>The phases of a tick\<close>

lemma point_eq_iff: "(p :: point) = q \<longleftrightarrow> px p = px q \<and> py p = py q"
  by (cases p, cases q) simp

lemma move_eq_Some:
  "move r = Some r' \<longleftrightarrow>
     segments r \<noteq> [] \<and>
     r' = r\<lparr>segments :=
            \<lparr>px = (px (hd (segments r)) + px (move_direction r)) mod 60,
             py = (py (hd (segments r)) + py (move_direction r)) mod 45\<rparr>
            # butlast (segments r)\<rparr>"
  by (cases "segments r") (auto simp: move_def grid_width grid_height)

lemma expand_eq_Some:
  "expand r = Some r' \<longleftrightarrow>
     segments r \<noteq> [] \<and> r' = r\<lparr>segments := segments r @ [last (segments r)]\<rparr>"
  by (cases "segments r") (auto simp: expand_def)

lemma head_eq_Some: "head r = Some h \<longleftrightarrow> segments r \<noteq> [] \<and> h = hd (segments r)"
  by (cases "segments r") (auto simp: head_def)

lemma detect_collision_eq_Some:
  "detect_collision r item = Some b \<longleftrightarrow>
     segments r \<noteq> [] \<and> b = (hd (segments r) = item)"
  by (cases "segments r") (auto simp: detect_collision_def point_eq_iff)

lemma detect_collision_Cons:
  "segments r = h # t \<Longrightarrow> detect_collision r item = Some (item = h)"
  by (auto simp: detect_collision_def point_eq_iff)

lemma edge_check_in_grid:
  assumes "segments r \<noteq> []" "in_grid (hd (segments r))"
  shows "edge_check r = Some (r\<lparr>vitality := vitality r - edge_loss (hd (segments r))\<rparr>)"
  using assms
  by (cases "segments r")
     (auto simp: edge_check_def in_grid_def grid_width grid_height edge_loss_def Let_def)

lemma edge_check_eq_Some:
  "edge_check r = Some r' \<Longrightarrow>
     segments r \<noteq> [] \<and> segments r' = segments r \<and> move_direction r' = move_direction r
     \<and> tint r' = tint r \<and> tally r' = tally r
     \<and> vitality r' \<le> vitality r \<and> vitality r - 10 \<le> vitality r'"
  by (cases "segments r") (auto simp: edge_check_def Let_def split: if_splits)

lemma moved_head_in_grid:
  "move r = Some r' \<Longrightarrow> segments r' \<noteq> [] \<and> in_grid (hd (segments r'))"
  by (auto simp: move_eq_Some in_grid_def grid_width grid_height)

lemma next_head_in_grid: "in_grid (next_head r)"
  by (auto simp: next_head_def in_grid_def grid_width grid_height)

lemma move_then_edge:
  assumes "segments r \<noteq> []"
  shows "move r = Some (r\<lparr>segments := next_head r # butlast (segments r)\<rparr>)"
    and "edge_check (r\<lparr>segments := next_head r # butlast (segments r)\<rparr>) = Some (after_move r)"
proof -
  show "move r = Some (r\<lparr>segments := next_head r # butlast (segments r)\<rparr>)"
    using assms by (simp add: move_eq_Some next_head_def)
  have "in_grid (hd (segments (r\<lparr>segments := next_head r # butlast (segments r)\<rparr>)))"
    by (simp add: next_head_in_grid)
  then show "edge_check (r\<lparr>segments := next_head r # butlast (segments r)\<rparr>) = Some (after_move r)"
    by (subst edge_check_in_grid) (simp_all add: after_move_def)
qed

lemma replenish_frame:
  "combatant1 (replenish_vitality_orbs e g) = combatant1 g"
  "combatant2 (replenish_vitality_orbs e g) = combatant2 g"
  "currentBattle (replenish_vitality_orbs e g) = currentBattle g"
  "totalRounds (replenish_vitality_orbs e g) = totalRounds g"
  "isOver (replenish_vitality_orbs e g) = isOver g"
  "isInPlay (replenish_vitality_orbs e g) = isInPlay g"
  "battleScores (replenish_vitality_orbs e g) = battleScores g"
  "nourishment (replenish_vitality_orbs e g) = nourishment g"
  by (simp_all add: replenish_vitality_orbs_def)

lemma move_and_edges_eq:
  assumes "bodies_ok g"
  shows "move_and_edges e g =
     Some ((replenish_vitality_orbs e g)
        \<lparr>combatant1 := after_move (combatant1 g), combatant2 := after_move (combatant2 g)\<rparr>)"
  using assms
  by (simp add: move_and_edges_def bodies_ok_def Let_def replenish_frame move_then_edge)

lemma move_and_edges_bodies: "move_and_edges e g = Some g' \<Longrightarrow> bodies_ok g"
  by (auto simp: move_and_edges_def bodies_ok_def Let_def replenish_frame move_eq_Some
      bind_eq_Some_conv)

lemma after_move_frame:
  "segments (after_move r) \<noteq> []"
  "length (segments (after_move r)) = length (segments r) \<or> segments r = []"
  "hd (segments (after_move r)) = next_head r"
  "vitality (after_move r) = vitality r - edge_loss (next_head r)"
  "tally (after_move r) = tally r"
  "move_direction (after_move r) = move_direction r"
  by (auto simp: after_move_def)

lemma combatant_collisions_eq:
  assumes "bodies_ok g"
  shows "combatant_collisions g =
     Some (g\<lparr>combatant1 := (combatant1 g)\<lparr>vitality := vitality (combatant1 g)
                 - (if hd (segments (combatant1 g)) \<in> set (segments (combatant2 g)) then 5 else 0)\<rparr>,
              combatant2 := (combatant2 g)\<lparr>vitality := vitality (combatant2 g)
                 - (if hd (segments (combatant2 g)) \<in> set (segments (combatant1 g)) then 5 else 0)\<rparr>\<rparr>)"
proof -
  from assms obtain h1 t1 h2 t2
    where s: "segments (combatant1 g) = h1 # t1" "segments (combatant2 g) = h2 # t2"
    by (auto simp: bodies_ok_def neq_Nil_conv)
  show ?thesis
    using s by (simp add: combatant_collisions_def head_def Let_def)
qed

lemma feed1_eq:
  assumes "bodies_ok g"
  shows "feed1 e g =
     Some (if hd (segments (combatant1 g)) = nourishment g
           then g\<lparr>nourishment := food1 e,
                  combatant1 := (combatant1 g)\<lparr>tally := tally (combatant1 g) + 5,
                     segments := segments (combatant1 g) @ [last (segments (combatant1 g))]\<rparr>\<rparr>
           else g)"
proof -
  from assms obtain h1 t1 where s: "segments (combatant1 g) = h1 # t1"
    by (auto simp: bodies_ok_def neq_Nil_conv)
  show ?thesis
    using s by (auto simp: feed1_def detect_collision_Cons expand_def)
qed

lemma feed2_eq:
  assumes "bodies_ok g"
  shows "feed2 e g =
     Some (if hd (segments (combatant2 g)) = nourishment g
           then g\<lparr>nourishment := food2 e,
                  combatant2 := (combatant2 g)\<lparr>tally := tally (combatant2 g) + 5,
                     segments := segments (combatant2 g) @ [last (segments (combatant2 g))]\<rparr>\<rparr>
           else g)"
proof -
  from assms obtain h2 t2 where s: "segments (combatant2 g) = h2 # t2"
    by (auto simp: bodies_ok_def neq_Nil_conv)
  show ?thesis
    using s by (auto simp: feed2_def detect_collision_Cons expand_def)
qed

lemma consume_orbs_general:
  assumes "segments (combatant1 g) = h1 # t1" "segments (combatant2 g) = h2 # t2"
    and "restorativeOrbs g = kept @ xs"
    and "\<forall>b\<in>set kept. coordinates b \<noteq> h1 \<and> coordinates b \<noteq> h2"
  shows "consume_orbs xs g =
     Some (g\<lparr>restorativeOrbs :=
                kept @ filter (\<lambda>b. coordinates b \<noteq> h1 \<and> coordinates b \<noteq> h2) xs,
              combatant1 := (combatant1 g)\<lparr>vitality :=
                (heal ^^ length (filter (\<lambda>b. coordinates b = h1) xs)) (vitality (combatant1 g))\<rparr>,
              combatant2 := (combatant2 g)\<lparr>vitality :=
                (heal ^^ length (filter (\<lambda>b. coordinates b \<noteq> h1 \<and> coordinates b = h2) xs))
                  (vitality (combatant2 g))\<rparr>\<rparr>)"
  using assms
proof (induction xs arbitrary: g kept)
  case Nil
  then show ?case by simp
next
  case (Cons orb rest)
  have rm: "list_remove orb (restorativeOrbs g) = Some (kept @ rest)"
    if "coordinates orb = h1 \<or> coordinates orb = h2"
  proof -
    from that Cons.prems(4) have "orb \<notin> set kept" by auto
    then show ?thesis
      using Cons.prems(3) by (simp add: list_remove_def remove1_append)
  qed
  show ?case
  proof (cases "coordinates orb = h1")
    case True
    let ?g = "g\<lparr>restorativeOrbs := kept @ rest,
                 combatant1 := (combatant1 g)\<lparr>vitality := min (vitality (combatant1 g) + 30) 100\<rparr>\<rparr>"
    let ?res = "?g\<lparr>restorativeOrbs :=
                kept @ filter (\<lambda>b. coordinates b \<noteq> h1 \<and> coordinates b \<noteq> h2) rest,
              combatant1 := (combatant1 ?g)\<lparr>vitality :=
                (heal ^^ length (filter (\<lambda>b. coordinates b = h1) rest)) (vitality (combatant1 ?g))\<rparr>,
              combatant2 := (combatant2 ?g)\<lparr>vitality :=
                (heal ^^ length (filter (\<lambda>b. coordinates b \<noteq> h1 \<and> coordinates b = h2) rest))
                  (vitality (combatant2 ?g))\<rparr>\<rparr>"
      have "consume_orbs (orb # rest) g = consume_orbs rest ?g"
      using True Cons.prems(1) rm by (simp add: detect_collision_Cons)
    also have "\<dots> = Some ?res"
      using Cons.prems by (intro Cons.IH) simp_all
    finally have eq: "consume_orbs (orb # rest) g = Some ?res" .
    show ?thesis
      unfolding eq using True by (simp add: heal_def [symmetric] funpow_swap1)
  next
    case False
    note not1 = False
    show ?thesis
    proof (cases "coordinates orb = h2")
      case True
      let ?g = "g\<lparr>restorativeOrbs := kept @ rest,
                   combatant2 := (combatant2 g)\<lparr>vitality := min (vitality (combatant2 g) + 30) 100\<rparr>\<rparr>"
      let ?res = "?g\<lparr>restorativeOrbs :=
                  kept @ filter (\<lambda>b. coordinates b \<noteq> h1 \<and> coordinates b \<noteq> h2) rest,
                combatant1 := (combatant1 ?g)\<lparr>vitality :=
                  (heal ^^ length (filter (\<lambda>b. coordinates b = h1) rest)) (vitality (combatant1 ?g))\<rparr>,
                combatant2 := (combatant2 ?g)\<lparr>vitality :=
                  (heal ^^ length (filter (\<lambda>b. coordinates b \<noteq> h1 \<and> coordinates b = h2) rest))
                    (vitality (combatant2 ?g))\<rparr>\<rparr>"
      have "consume_orbs (orb # rest) g = consume_orbs rest ?g"
        using True not1 Cons.prems(1,2) rm by (simp add: detect_collision_Cons)
      also have "\<dots> = Some ?res"
        using Cons.prems by (intro Cons.IH) simp_all
      finally have eq: "consume_orbs (orb # rest) g = Some ?res" .
      show ?thesis
        unfolding eq using True not1 by (simp add: heal_def [symmetric] funpow_swap1)
    next
      case False
      let ?res = "g\<lparr>restorativeOrbs :=
                  (kept @ [orb]) @ filter (\<lambda>b. coordinates b \<noteq> h1 \<and> coordinates b \<noteq> h2) rest,
                combatant1 := (combatant1 g)\<lparr>vitality :=
                  (heal ^^ length (filter (\<lambda>b. coordinates b = h1) rest)) (vitality (combatant1 g))\<rparr>,
                combatant2 := (combatant2 g)\<lparr>vitality :=
                  (heal ^^ length (filter (\<lambda>b. coordinates b \<noteq> h1 \<and> coordinates b = h2) rest))
                    (vitality (combatant2 g))\<rparr>\<rparr>"
      have "consume_orbs (orb # rest) g = consume_orbs rest g"
        using False not1 Cons.prems(1,2) by (simp add: detect_collision_Cons)
      also have "\<dots> = Some ?res"
        using Cons.prems False not1 by (intro Cons.IH) simp_all
      finally have eq: "consume_orbs (orb # rest) g = Some ?res" .
      show ?thesis
        unfolding eq using False not1 by simp
    qed
  qed
qed

section \<open>The edge penalty\<close>

text \<open>
  C10. When both bodies are non-empty the tick reaches the edge checks with both heads
  inside the grid, \<open>0 \<le> x < 60\<close> and \<open>0 \<le> y < 45\<close>, so the tests \<open>x \<ge> 60\<close> and \<open>y \<ge> 45\<close> are
  false whenever they are evaluated; each combatant loses 5 when its head's \<open>x\<close> is 0 and 5
  when its head's \<open>y\<close> is 0, and nothing otherwise: the last column and the last row cost
  nothing.
\<close>

theorem edge_penalty_exactly_at_zero:
  assumes "segments (combatant1 g) \<noteq> []" and "segments (combatant2 g) \<noteq> []"
  shows "\<exists>g1 h1 h2.
      move_and_edges e g = Some g1
    \<and> map_option segments (move (combatant1 g)) = Some (segments (combatant1 g1))
    \<and> map_option segments (move (combatant2 g)) = Some (segments (combatant2 g1))
    \<and> head (combatant1 g1) = Some h1 \<and> head (combatant2 g1) = Some h2
    \<and> 0 \<le> px h1 \<and> px h1 < DISPLAY_WIDTH div REPTILE_DIMENSION
    \<and> 0 \<le> py h1 \<and> py h1 < DISPLAY_HEIGHT div REPTILE_DIMENSION
    \<and> 0 \<le> px h2 \<and> px h2 < DISPLAY_WIDTH div REPTILE_DIMENSION
    \<and> 0 \<le> py h2 \<and> py h2 < DISPLAY_HEIGHT div REPTILE_DIMENSION
    \<and> vitality (combatant1 g1) =
        vitality (combatant1 g) - (if px h1 = 0 then 5 else 0) - (if py h1 = 0 then 5 else 0)
    \<and> vitality (combatant2 g1) =
        vitality (combatant2 g) - (if px h2 = 0 then 5 else 0) - (if py h2 = 0 then 5 else 0)"
proof -
  have ok: "bodies_ok g"
    using assms by (simp add: bodies_ok_def)
  have grid: "in_grid (next_head (combatant1 g))" "in_grid (next_head (combatant2 g))"
    by (rule next_head_in_grid)+
  have m: "map_option segments (move r) = Some (segments (after_move r))"
    if "segments r \<noteq> []" for r
    using that by (simp add: move_then_edge(1) after_move_def)
  show ?thesis
    using grid m [OF assms(1)] m [OF assms(2)]
    by (simp add: move_and_edges_eq [OF ok] head_def after_move_def in_grid_def
        edge_loss_def grid_width grid_height)
qed

theorem edge_penalty_exactly_at_zero_witness:
  "segments (combatant1 at_edges) \<noteq> [] \<and> segments (combatant2 at_edges) \<noteq> []
   \<and> map_option (\<lambda>g. (segments (combatant1 g), vitality (combatant1 g),
                        segments (combatant2 g), vitality (combatant2 g)))
        (move_and_edges e0 at_edges)
      = Some ([\<lparr>px = 0, py = 44\<rparr>], 95, [\<lparr>px = 0, py = 0\<rparr>], 90)"
proof -
  have a: "segments (combatant1 at_edges) \<noteq> []" "segments (combatant2 at_edges) \<noteq> []"
    by (simp_all add: at_edges_def)
  have b: "map_option segments (move (combatant1 at_edges)) = Some [\<lparr>px = 0, py = 44\<rparr>]"
          "map_option segments (move (combatant2 at_edges)) = Some [\<lparr>px = 0, py = 0\<rparr>]"
          "vitality (combatant1 at_edges) = 100" "vitality (combatant2 at_edges) = 100"
    by (simp_all add: at_edges_def move_eq_Some spawn1_def spawn2_def Reptile_init_def
        MatchController_init_def MOVE_RIGHT_def MOVE_UP_def move_def grid_width grid_height)
  from edge_penalty_exactly_at_zero [OF a, of e0] obtain g1 h1 h2 where g1:
    "move_and_edges e0 at_edges = Some g1"
    "segments (combatant1 g1) = [\<lparr>px = 0, py = 44\<rparr>]"
    "segments (combatant2 g1) = [\<lparr>px = 0, py = 0\<rparr>]"
    "head (combatant1 g1) = Some h1" "head (combatant2 g1) = Some h2"
    "vitality (combatant1 g1) = 100 - (if px h1 = 0 then 5 else 0) - (if py h1 = 0 then 5 else 0)"
    "vitality (combatant2 g1) = 100 - (if px h2 = 0 then 5 else 0) - (if py h2 = 0 then 5 else 0)"
    unfolding b by auto
  from g1(2-5) have h: "h1 = \<lparr>px = 0, py = 44\<rparr>" "h2 = \<lparr>px = 0, py = 0\<rparr>"
    by (simp_all add: head_eq_Some)
  show ?thesis
    using a g1 unfolding h by simp
qed

section \<open>Orbs\<close>

lemma consume_orbs_filter:
  assumes "segments (combatant1 g) = h1 # t1" and "segments (combatant2 g) = h2 # t2"
  shows "consume_orbs (restorativeOrbs g) g =
     Some (g\<lparr>restorativeOrbs :=
                filter (\<lambda>b. coordinates b \<noteq> h1 \<and> coordinates b \<noteq> h2) (restorativeOrbs g),
              combatant1 := (combatant1 g)\<lparr>vitality :=
                (heal ^^ length (filter (\<lambda>b. coordinates b = h1) (restorativeOrbs g)))
                  (vitality (combatant1 g))\<rparr>,
              combatant2 := (combatant2 g)\<lparr>vitality :=
                (heal ^^ length (filter (\<lambda>b. coordinates b \<noteq> h1 \<and> coordinates b = h2)
                                   (restorativeOrbs g)))
                  (vitality (combatant2 g))\<rparr>\<rparr>)"
  using consume_orbs_general [OF assms, of "[]" "restorativeOrbs g"] by simp

text \<open>
  C5, as the code has it. The loop over the orbs has no \<^verbatim>\<open>break\<close>: it visits every orb of
  the list, testing combatant 1 first and combatant 2 only when combatant 1 is not on the
  orb. When both bodies are non-empty it returns normally; it removes every orb lying on
  the head of combatant 1 or of combatant 2 and keeps the others in their order;
  combatant 1 is healed once (30, capped at 100) for each orb on its head, and combatant 2
  once for each orb on its head that is not also on the head of combatant 1. So a
  combatant consumes as many orbs in a tick as lie on its head cell.
\<close>

theorem orb_loop_consumes_every_orb_on_a_head:
  assumes "segments (combatant1 g) \<noteq> []" and "segments (combatant2 g) \<noteq> []"
  shows "\<exists>g'. consume_orbs (restorativeOrbs g) g = Some g'
     \<and> restorativeOrbs g' =
         filter (\<lambda>b. coordinates b \<noteq> hd (segments (combatant1 g))
                   \<and> coordinates b \<noteq> hd (segments (combatant2 g))) (restorativeOrbs g)
     \<and> vitality (combatant1 g') =
         (heal ^^ length (filter (\<lambda>b. coordinates b = hd (segments (combatant1 g)))
                            (restorativeOrbs g))) (vitality (combatant1 g))
     \<and> vitality (combatant2 g') =
         (heal ^^ length (filter (\<lambda>b. coordinates b \<noteq> hd (segments (combatant1 g))
                                      \<and> coordinates b = hd (segments (combatant2 g)))
                            (restorativeOrbs g))) (vitality (combatant2 g))
     \<and> segments (combatant1 g') = segments (combatant1 g)
     \<and> segments (combatant2 g') = segments (combatant2 g)
     \<and> heal = (\<lambda>v. min (v + 30) 100)"
proof -
  from assms obtain h1 t1 h2 t2
    where s: "segments (combatant1 g) = h1 # t1" "segments (combatant2 g) = h2 # t2"
    by (auto simp: neq_Nil_conv)
  have "heal = (\<lambda>v. min (v + 30) 100)"
    by (rule ext) (simp add: heal_def)
  then show ?thesis
    using s by (simp add: consume_orbs_filter [OF s])
qed

theorem orb_loop_consumes_every_orb_on_a_head_witness:
  "segments (combatant1 on_two_orbs) \<noteq> [] \<and> segments (combatant2 on_two_orbs) \<noteq> []
   \<and> length (restorativeOrbs on_two_orbs) = 2
   \<and> vitality (combatant1 on_two_orbs) = 10
   \<and> map_option (\<lambda>g. (restorativeOrbs g, vitality (combatant1 g), vitality (combatant2 g)))
        (consume_orbs (restorativeOrbs on_two_orbs) on_two_orbs)
      = Some ([], 70, 100)"
proof -
  have f: "segments (combatant1 on_two_orbs) = [\<lparr>px = 6, py = 22\<rparr>]"
    "segments (combatant2 on_two_orbs) = [\<lparr>px = 55, py = 22\<rparr>]"
    "restorativeOrbs on_two_orbs =
       [\<lparr>coordinates = \<lparr>px = 6, py = 22\<rparr>\<rparr>, \<lparr>coordinates = \<lparr>px = 6, py = 22\<rparr>\<rparr>]"
    "vitality (combatant1 on_two_orbs) = 10" "vitality (combatant2 on_two_orbs) = 100"
    by (simp_all add: on_two_orbs_def two_orbs_def MatchController_init_def spawn1_def
        spawn2_def Reptile_init_def grid_width grid_height)
  have a: "segments (combatant1 on_two_orbs) \<noteq> []" "segments (combatant2 on_two_orbs) \<noteq> []"
    by (simp_all add: f)
  from orb_loop_consumes_every_orb_on_a_head [OF a] obtain g' where g':
    "consume_orbs (restorativeOrbs on_two_orbs) on_two_orbs = Some g'"
    "restorativeOrbs g' = []" "vitality (combatant1 g') = heal (heal 10)"
    "vitality (combatant2 g') = 100"
    by (auto simp: f)
  show ?thesis
    using a g' by (simp add: f heal_def)
qed

text \<open>
  C5 as stated fails: with two orbs on the cell that the head of combatant 1 enters, one
  tick removes both and heals combatant 1 twice, from 10 to 70.
\<close>

theorem two_orbs_consumed_in_one_tick:
  "length (restorativeOrbs two_orbs) = 2
   \<and> vitality (combatant1 two_orbs) = 10
   \<and> map_option (\<lambda>g. (restorativeOrbs g, vitality (combatant1 g), segments (combatant1 g)))
        (advance_game e0 two_orbs) = Some ([], 70, [\<lparr>px = 6, py = 22\<rparr>])"
  by code_simp

section \<open>The whole tick\<close>

lemma session_kept_refl: "session_kept g g"
  by (simp add: session_kept_def)

lemma session_kept_trans: "session_kept a b \<Longrightarrow> session_kept b c \<Longrightarrow> session_kept a c"
  by (simp add: session_kept_def)

lemma bodies_grow_trans: "bodies_grow a b \<Longrightarrow> bodies_grow b c \<Longrightarrow> bodies_grow a c"
  by (auto simp: bodies_grow_def)

lemma heal_pow_capped: "v \<le> 100 \<Longrightarrow> (heal ^^ n) v \<le> 100"
  by (induction n) (simp_all add: heal_def)

lemma consume_orbs_props:
  assumes "bodies_ok g"
  shows "\<exists>g'. consume_orbs (restorativeOrbs g) g = Some g' \<and> session_kept g g'
           \<and> bodies_grow g g' \<and> (health_capped g \<longrightarrow> health_capped g')
           \<and> nourishment g' = nourishment g
           \<and> tally (combatant1 g') = tally (combatant1 g)
           \<and> tally (combatant2 g') = tally (combatant2 g)"
proof -
  from assms obtain h1 t1 h2 t2
    where s: "segments (combatant1 g) = h1 # t1" "segments (combatant2 g) = h2 # t2"
    by (auto simp: bodies_ok_def neq_Nil_conv)
  show ?thesis
    using s
    by (simp add: consume_orbs_filter [OF s] session_kept_def bodies_grow_def bodies_ok_def
        health_capped_def heal_pow_capped)
qed

lemma combatant_collisions_props:
  assumes "bodies_ok g"
  shows "\<exists>g'. combatant_collisions g = Some g' \<and> session_kept g g'
           \<and> bodies_grow g g' \<and> (health_capped g \<longrightarrow> health_capped g')
           \<and> nourishment g' = nourishment g
           \<and> tally (combatant1 g') = tally (combatant1 g)
           \<and> tally (combatant2 g') = tally (combatant2 g)"
  using assms
  by (simp add: combatant_collisions_eq session_kept_def bodies_grow_def bodies_ok_def
      health_capped_def)

lemma feed1_props:
  assumes "bodies_ok g"
  shows "\<exists>g'. feed1 e g = Some g' \<and> session_kept g g'
           \<and> bodies_grow g g' \<and> (health_capped g \<longrightarrow> health_capped g')"
  using assms
  by (auto simp: feed1_eq session_kept_def bodies_grow_def bodies_ok_def health_capped_def)

lemma feed2_props:
  assumes "bodies_ok g"
  shows "\<exists>g'. feed2 e g = Some g' \<and> session_kept g g'
           \<and> bodies_grow g g' \<and> (health_capped g \<longrightarrow> health_capped g')"
  using assms
  by (auto simp: feed2_eq session_kept_def bodies_grow_def bodies_ok_def health_capped_def)

lemma interactions_props:
  assumes "bodies_ok g"
  shows "\<exists>g'. interactions e g = Some g' \<and> session_kept g g'
           \<and> bodies_grow g g' \<and> (health_capped g \<longrightarrow> health_capped g')"
proof -
  from consume_orbs_props [OF assms] obtain g1 where 1:
    "consume_orbs (restorativeOrbs g) g = Some g1" "session_kept g g1" "bodies_grow g g1"
    "health_capped g \<longrightarrow> health_capped g1"
    by blast
  then have ok1: "bodies_ok g1" by (simp add: bodies_grow_def)
  from combatant_collisions_props [OF ok1] obtain g2 where 2:
    "combatant_collisions g1 = Some g2" "session_kept g1 g2" "bodies_grow g1 g2"
    "health_capped g1 \<longrightarrow> health_capped g2"
    by blast
  then have ok2: "bodies_ok g2" by (simp add: bodies_grow_def)
  from feed1_props [OF ok2] obtain g3 where 3:
    "feed1 e g2 = Some g3" "session_kept g2 g3" "bodies_grow g2 g3"
    "health_capped g2 \<longrightarrow> health_capped g3"
    by blast
  then have ok3: "bodies_ok g3" by (simp add: bodies_grow_def)
  from feed2_props [OF ok3] obtain g4 where 4:
    "feed2 e g3 = Some g4" "session_kept g3 g4" "bodies_grow g3 g4"
    "health_capped g3 \<longrightarrow> health_capped g4"
    by blast
  have "interactions e g = Some g4"
    by (simp add: interactions_def 1 2 3 4)
  moreover have "session_kept g g4"
    using 1(2) 2(2) 3(2) 4(2) by (blast intro: session_kept_trans)
  moreover have "bodies_grow g g4"
    using 1(3) 2(3) 3(3) 4(3) by (blast intro: bodies_grow_trans)
  moreover have "health_capped g \<longrightarrow> health_capped g4"
    using 1(4) 2(4) 3(4) 4(4) by blast
  ultimately show ?thesis by blast
qed

lemma move_and_edges_props:
  assumes "bodies_ok g"
  shows "\<exists>g'. move_and_edges e g = Some g' \<and> session_kept g g' \<and> bodies_ok g'
           \<and> length (segments (combatant1 g')) = length (segments (combatant1 g))
           \<and> length (segments (combatant2 g')) = length (segments (combatant2 g))
           \<and> tally (combatant1 g') = tally (combatant1 g)
           \<and> tally (combatant2 g') = tally (combatant2 g)
           \<and> vitality (combatant1 g') \<le> vitality (combatant1 g)
           \<and> vitality (combatant2 g') \<le> vitality (combatant2 g)"
  using assms
  by (simp add: move_and_edges_eq session_kept_def replenish_frame bodies_ok_def
      after_move_def edge_loss_def)

lemma terminate_battle_cases:
  "terminate_battle e g =
     Some (if downed g
           then (if currentBattle g < totalRounds g
                 then initialize_next_battle e
                        (g\<lparr>battleScores := (fst (battleScores g) @ [tally (combatant1 g)],
                                              snd (battleScores g) @ [tally (combatant2 g)]),
                           currentBattle := currentBattle g + 1\<rparr>)
                 else g\<lparr>battleScores := (fst (battleScores g) @ [tally (combatant1 g)],
                                           snd (battleScores g) @ [tally (combatant2 g)]),
                        isOver := True\<rparr>)
           else g)"
  by (simp add: terminate_battle_def downed_def archive_scores_def)

lemma advance_game_split:
  "advance_game e g = Some g' \<longleftrightarrow>
     (\<exists>g1 g2. move_and_edges e g = Some g1 \<and> terminate_battle e g1 = Some g2
               \<and> interactions e g2 = Some g')"
  by (simp add: advance_game_def bind_eq_Some_conv)

lemma spawn_values:
  "spawn1 = \<lparr>segments = [\<lparr>px = 5, py = 22\<rparr>], move_direction = MOVE_RIGHT,
             tint = COLOR_YELLOW, vitality = 100, tally = 0\<rparr>"
  "spawn2 = \<lparr>segments = [\<lparr>px = 55, py = 22\<rparr>], move_direction = MOVE_LEFT,
             tint = COLOR_ORANGE, vitality = 100, tally = 0\<rparr>"
  by (simp_all add: spawn1_def spawn2_def Reptile_init_def grid_width grid_height)

lemma terminate_battle_bodies:
  "bodies_ok g \<Longrightarrow> terminate_battle e g = Some g' \<Longrightarrow> bodies_ok g'"
  by (auto simp: terminate_battle_cases bodies_ok_def initialize_next_battle_def spawn_values
      split: if_splits)

lemma advance_game_total:
  assumes "bodies_ok g"
  shows "\<exists>g'. advance_game e g = Some g' \<and> bodies_ok g'"
proof -
  from move_and_edges_props [OF assms] obtain g1
    where 1: "move_and_edges e g = Some g1" "bodies_ok g1" by blast
  obtain g2 where 2: "terminate_battle e g1 = Some g2"
    by (simp add: terminate_battle_cases)
  have ok2: "bodies_ok g2" by (rule terminate_battle_bodies [OF 1(2) 2])
  from interactions_props [OF ok2] obtain g3
    where 3: "interactions e g2 = Some g3" "bodies_grow g2 g3" by blast
  show ?thesis
    using 1 2 3 by (auto simp: advance_game_split bodies_grow_def)
qed

lemma advance_game_bodies: "advance_game e g = Some g' \<Longrightarrow> bodies_ok g"
  by (auto simp: advance_game_split dest: move_and_edges_bodies)

section \<open>Steps and runs\<close>

lemma on_key_down_frame:
  "session_kept g (on_key_down k u g)"
  "segments (combatant1 (on_key_down k u g)) = segments (combatant1 g)"
  "segments (combatant2 (on_key_down k u g)) = segments (combatant2 g)"
  "vitality (combatant1 (on_key_down k u g)) = vitality (combatant1 g)"
  "vitality (combatant2 (on_key_down k u g)) = vitality (combatant2 g)"
  by (simp_all add: on_key_down_def session_kept_def)

lemma handle_no_click:
  assumes "no_click i" and "handle e i g = Some g'"
  shows "session_kept g g'
     \<and> segments (combatant1 g') = segments (combatant1 g)
     \<and> segments (combatant2 g') = segments (combatant2 g)"
proof (cases i)
  case (KEYDOWN k u)
  then show ?thesis
    using assms by (auto simp: on_key_down_frame)
qed (use assms in \<open>auto simp: session_kept_def\<close>)

lemma manage_interactions_no_click:
  assumes "list_all no_click is" and "manage_interactions e is g = Some g'"
  shows "session_kept g g'
     \<and> segments (combatant1 g') = segments (combatant1 g)
     \<and> segments (combatant2 g') = segments (combatant2 g)"
  using assms
proof (induction "is" arbitrary: g)
  case Nil
  then show ?case by (simp add: session_kept_refl)
next
  case (Cons i rest)
  from Cons.prems obtain g1 where 1: "handle e i g = Some g1"
    and 2: "manage_interactions e rest g1 = Some g'"
    by (auto simp: bind_eq_Some_conv)
  from handle_no_click [OF _ 1] Cons.prems(1) Cons.IH [OF _ 2]
  show ?case by (auto intro: session_kept_trans)
qed

lemma handle_total:
  assumes "bodies_ok g"
  shows "\<exists>g'. handle e i g = Some g' \<and> bodies_ok g'
           \<and> (health_capped g \<longrightarrow> health_capped g')"
  using assms
  by (cases i)
     (auto simp: on_mouse_button_down_def confirm_rounds_def restart_battle_def
        initialize_next_battle_def spawn_values on_key_down_def bodies_ok_def
        health_capped_def split: option.splits)

lemma manage_interactions_total:
  assumes "bodies_ok g"
  shows "\<exists>g'. manage_interactions e is g = Some g' \<and> bodies_ok g'
           \<and> (health_capped g \<longrightarrow> health_capped g')"
  using assms
proof (induction "is" arbitrary: g)
  case Nil
  then show ?case by simp
next
  case (Cons i rest)
  from handle_total [OF Cons.prems, of e i] obtain g1 where 1:
    "handle e i g = Some g1" "bodies_ok g1" "health_capped g \<longrightarrow> health_capped g1"
    by blast
  from Cons.IH [OF 1(2)] 1 show ?case by auto
qed

lemma downed_after_edges_eq:
  "move_and_edges e g = Some g1 \<Longrightarrow> downed_after_edges e g = downed g1"
  by (simp add: downed_after_edges_def)

lemma advance_game_session:
  assumes "advance_game e g = Some g'"
  shows "totalRounds g' = totalRounds g \<and> isInPlay g' = isInPlay g \<and>
     (if downed_after_edges e g
      then (if currentBattle g < totalRounds g
            then currentBattle g' = currentBattle g + 1 \<and> isOver g' = isOver g
            else currentBattle g' = currentBattle g \<and> isOver g')
      else currentBattle g' = currentBattle g \<and> isOver g' = isOver g)"
proof -
  from assms obtain g1 g2 where 1: "move_and_edges e g = Some g1"
    and 2: "terminate_battle e g1 = Some g2" and 3: "interactions e g2 = Some g'"
    by (auto simp: advance_game_split)
  have ok: "bodies_ok g" by (rule move_and_edges_bodies [OF 1])
  from move_and_edges_props [OF ok, of e] 1
  have k1: "session_kept g g1" "bodies_ok g1" by auto
  have ok2: "bodies_ok g2" by (rule terminate_battle_bodies [OF k1(2) 2])
  from interactions_props [OF ok2, of e] 3 have k3: "session_kept g2 g'" by auto
  show ?thesis
    using 2 k1(1) k3
    by (auto simp: downed_after_edges_eq [OF 1] terminate_battle_cases session_kept_def
        initialize_next_battle_def split: if_splits)
qed

lemma advance_game_lengths:
  assumes "advance_game e g = Some g'" and "currentBattle g' = currentBattle g"
  shows "length (segments (combatant1 g)) \<le> length (segments (combatant1 g'))
       \<and> length (segments (combatant2 g)) \<le> length (segments (combatant2 g'))"
proof -
  from assms(1) obtain g1 g2 where 1: "move_and_edges e g = Some g1"
    and 2: "terminate_battle e g1 = Some g2" and 3: "interactions e g2 = Some g'"
    by (auto simp: advance_game_split)
  have ok: "bodies_ok g" by (rule move_and_edges_bodies [OF 1])
  from move_and_edges_props [OF ok, of e] 1
  have k1: "bodies_ok g1"
    "length (segments (combatant1 g1)) = length (segments (combatant1 g))"
    "length (segments (combatant2 g1)) = length (segments (combatant2 g))"
    "currentBattle g1 = currentBattle g" "totalRounds g1 = totalRounds g"
    by (auto simp: session_kept_def)
  have ok2: "bodies_ok g2" by (rule terminate_battle_bodies [OF k1(1) 2])
  from interactions_props [OF ok2, of e] 3 have k3: "bodies_grow g2 g'" by auto
  from advance_game_session [OF assms(1)] assms(2)
  have "\<not> (downed_after_edges e g \<and> currentBattle g < totalRounds g)"
    by (auto split: if_splits)
  then have "combatant1 g2 = combatant1 g1 \<and> combatant2 g2 = combatant2 g1"
    using 2 k1(4,5)
    by (auto simp: downed_after_edges_eq [OF 1] terminate_battle_cases split: if_splits)
  then show ?thesis
    using k1 k3 by (simp add: bodies_grow_def)
qed

lemma advance_game_capped:
  assumes "advance_game e g = Some g'" and "health_capped g"
  shows "health_capped g'"
proof -
  from assms(1) obtain g1 g2 where 1: "move_and_edges e g = Some g1"
    and 2: "terminate_battle e g1 = Some g2" and 3: "interactions e g2 = Some g'"
    by (auto simp: advance_game_split)
  have ok: "bodies_ok g" by (rule move_and_edges_bodies [OF 1])
  from move_and_edges_props [OF ok, of e] 1 assms(2)
  have k1: "bodies_ok g1" "health_capped g1" by (auto simp: health_capped_def)
  have ok2: "bodies_ok g2" by (rule terminate_battle_bodies [OF k1(1) 2])
  have "health_capped g2"
    using 2 k1(2)
    by (auto simp: terminate_battle_cases health_capped_def initialize_next_battle_def
        spawn_values split: if_splits)
  with interactions_props [OF ok2, of e] 3 show ?thesis by auto
qed

lemma do_step_total:
  assumes "bodies_ok g"
  shows "\<exists>g'. do_step s g = Some g' \<and> bodies_ok g' \<and> (health_capped g \<longrightarrow> health_capped g')"
proof (cases s)
  case (Tick e)
  from advance_game_total [OF assms, of e] obtain g' where
    "advance_game e g = Some g'" "bodies_ok g'" by blast
  then show ?thesis
    using Tick advance_game_capped by auto
next
  case (Input e "is")
  then show ?thesis
    using manage_interactions_total [OF assms, of e "is"] by simp
qed

lemma run_total:
  assumes "bodies_ok g"
  shows "\<exists>g'. run ss g = Some g' \<and> bodies_ok g' \<and> (health_capped g \<longrightarrow> health_capped g')"
  using assms
proof (induction ss arbitrary: g)
  case Nil
  then show ?case by simp
next
  case (Cons s rest)
  from do_step_total [OF Cons.prems, of s] obtain g1 where 1:
    "do_step s g = Some g1" "bodies_ok g1" "health_capped g \<longrightarrow> health_capped g1"
    by blast
  from Cons.IH [OF 1(2)] 1 show ?case by auto
qed

lemma initial_state_ok:
  "bodies_ok ((MatchController_init now food)\<lparr>controls := c\<rparr>)"
  "health_capped ((MatchController_init now food)\<lparr>controls := c\<rparr>)"
  by (simp_all add: MatchController_init_def bodies_ok_def health_capped_def spawn_values)

section \<open>Body length\<close>

lemma do_step_play:
  assumes "play_step s" and "do_step s g = Some g'"
  shows "currentBattle g \<le> currentBattle g'
     \<and> (currentBattle g' = currentBattle g \<longrightarrow>
          length (segments (combatant1 g)) \<le> length (segments (combatant1 g'))
        \<and> length (segments (combatant2 g)) \<le> length (segments (combatant2 g')))"
proof (cases s)
  case (Tick e)
  with assms(2) have a: "advance_game e g = Some g'" by simp
  from advance_game_session [OF a] have "currentBattle g \<le> currentBattle g'"
    by (auto split: if_splits)
  then show ?thesis
    using advance_game_lengths [OF a] by blast
next
  case (Input e "is")
  with assms have "list_all no_click is" "manage_interactions e is g = Some g'"
    by simp_all
  from manage_interactions_no_click [OF this] show ?thesis
    by (simp add: session_kept_def)
qed

lemma run_play_lengths:
  assumes "run ss g = Some g'" and "list_all play_step ss"
  shows "currentBattle g \<le> currentBattle g'
     \<and> (currentBattle g' = currentBattle g \<longrightarrow>
          length (segments (combatant1 g)) \<le> length (segments (combatant1 g'))
        \<and> length (segments (combatant2 g)) \<le> length (segments (combatant2 g')))"
  using assms
proof (induction ss arbitrary: g)
  case Nil
  then show ?case by simp
next
  case (Cons s rest)
  from Cons.prems obtain g1 where 1: "do_step s g = Some g1" and 2: "run rest g1 = Some g'"
    by (auto simp: bind_eq_Some_conv)
  from Cons.prems(2) have p: "play_step s" "list_all play_step rest" by simp_all
  from do_step_play [OF p(1) 1] Cons.IH [OF 2 p(2)] show ?case
    by (auto intro: order_trans)
qed

text \<open>
  C9. \<open>move\<close> keeps the length of the body and \<open>expand\<close> adds exactly one segment. Over
  any run of ticks, with the key events of the players between them, that stays in one
  battle (the battle number at the end is the one at the start), neither body is shorter
  at the end than at the start. A tick that starts the next battle replaces both
  combatants, and a click on the replay button restarts the session; neither is part of a
  single battle.
\<close>

theorem body_length_never_decreases:
  "(\<forall>r r'. move r = Some r' \<longrightarrow> length (segments r') = length (segments r))
   \<and> (\<forall>r r'. expand r = Some r' \<longrightarrow> length (segments r') = length (segments r) + 1)
   \<and> (run ss g = Some g' \<and> list_all play_step ss \<and> currentBattle g' = currentBattle g \<longrightarrow>
        length (segments (combatant1 g)) \<le> length (segments (combatant1 g'))
      \<and> length (segments (combatant2 g)) \<le> length (segments (combatant2 g')))"
proof (intro conjI allI impI)
  fix r r' assume "move r = Some r'"
  then show "length (segments r') = length (segments r)"
    by (auto simp: move_eq_Some)
next
  fix r r' assume "expand r = Some r'"
  then show "length (segments r') = length (segments r) + 1"
    by (auto simp: expand_eq_Some)
next
  assume a: "run ss g = Some g' \<and> list_all play_step ss \<and> currentBattle g' = currentBattle g"
  then show "length (segments (combatant1 g)) \<le> length (segments (combatant1 g'))"
    using run_play_lengths [of ss g g'] by simp
  from a show "length (segments (combatant2 g)) \<le> length (segments (combatant2 g'))"
    using run_play_lengths [of ss g g'] by simp
qed

theorem body_length_never_decreases_witness:
  "map_option (\<lambda>r. length (segments r)) (move spawn1) = Some 1
   \<and> map_option (\<lambda>r. length (segments r)) (expand spawn1) = Some 2
   \<and> list_all play_step [Tick e0, Input e0 [KEYDOWN K_w ''w''], Tick e0]
   \<and> currentBattle (in_play \<lparr>px = 6, py = 22\<rparr> 1) = 1
   \<and> length (segments (combatant1 (in_play \<lparr>px = 6, py = 22\<rparr> 1))) = 1
   \<and> map_option (\<lambda>g. (currentBattle g, length (segments (combatant1 g)),
                        length (segments (combatant2 g))))
        (run [Tick e0, Input e0 [KEYDOWN K_w ''w''], Tick e0] (in_play \<lparr>px = 6, py = 22\<rparr> 1))
      = Some (1, 2, 1)"
proof -
  let ?ss = "[Tick e0, Input e0 [KEYDOWN K_w ''w''], Tick e0]"
  let ?g = "in_play \<lparr>px = 6, py = 22\<rparr> 1"
  have ev: "map_option (\<lambda>g. (currentBattle g, length (segments (combatant1 g)),
                        length (segments (combatant2 g)))) (run ?ss ?g) = Some (1, 2, 1)"
    by code_simp
  then obtain g' where g': "run ?ss ?g = Some g'" "currentBattle g' = 1"
    "length (segments (combatant1 g')) = 2" "length (segments (combatant2 g')) = 1"
    by auto
  have p: "list_all play_step ?ss" by simp
  have s: "currentBattle ?g = 1" "length (segments (combatant1 ?g)) = 1"
    "length (segments (combatant2 ?g)) = 1"
    by (simp_all add: in_play_def fresh_def MatchController_init_def spawn_values)
  have m: "move spawn1 = Some (the (move spawn1))" "expand spawn1 = Some (the (expand spawn1))"
    by (simp_all add: move_def expand_def spawn_values)
  from body_length_never_decreases [of ?ss ?g g'] m
  have "length (segments (the (move spawn1))) = length (segments spawn1)"
    "length (segments (the (expand spawn1))) = length (segments spawn1) + 1"
    "length (segments (combatant1 ?g)) \<le> length (segments (combatant1 g'))"
    using g' p s by auto
  then show ?thesis
    using ev s p m by (auto simp: spawn_values)
qed

section \<open>Health\<close>

text \<open>
  C2, as the code has it. In every state reached from the initial state by ticks and by
  the handling of events, whatever the buttons, the health of each combatant is at most
  100, and a tick keeps it so: the penalties only subtract, and the orb sets the health
  to \<open>min (health + 30) 100\<close>. Nothing clamps the health at 0.
\<close>

theorem health_never_exceeds_100:
  "(run ss ((MatchController_init now food)\<lparr>controls := c\<rparr>) = Some g \<longrightarrow>
      vitality (combatant1 g) \<le> 100 \<and> vitality (combatant2 g) \<le> 100)
   \<and> (vitality (combatant1 a) \<le> 100 \<and> vitality (combatant2 a) \<le> 100
       \<and> advance_game e a = Some b \<longrightarrow>
      vitality (combatant1 b) \<le> 100 \<and> vitality (combatant2 b) \<le> 100)"
proof (intro conjI impI)
  let ?i = "(MatchController_init now food)\<lparr>controls := c\<rparr>"
  assume r: "run ss ?i = Some g"
  have ok: "bodies_ok ?i" and cap: "health_capped ?i"
    by (rule initial_state_ok)+
  from run_total [OF ok, of ss] r cap have "health_capped g" by auto
  then show "vitality (combatant1 g) \<le> 100" "vitality (combatant2 g) \<le> 100"
    by (simp_all add: health_capped_def)
next
  assume "vitality (combatant1 a) \<le> 100 \<and> vitality (combatant2 a) \<le> 100
       \<and> advance_game e a = Some b"
  then have "health_capped b"
    using advance_game_capped [of e a b] by (simp add: health_capped_def)
  then show "vitality (combatant1 b) \<le> 100" "vitality (combatant2 b) \<le> 100"
    by (simp_all add: health_capped_def)
qed

theorem health_never_exceeds_100_witness:
  "map_option (\<lambda>g. (vitality (combatant1 g), vitality (combatant2 g)))
     (run (enter_rounds ''1'' @ to_the_corner)
        ((MatchController_init 0 \<lparr>px = 30, py = 40\<rparr>)\<lparr>controls := buttons\<rparr>)) = Some (5, 100)
   \<and> vitality (combatant1 (in_play \<lparr>px = 30, py = 40\<rparr> 1)) \<le> 100
   \<and> vitality (combatant2 (in_play \<lparr>px = 30, py = 40\<rparr> 1)) \<le> 100
   \<and> map_option (\<lambda>g. (vitality (combatant1 g), vitality (combatant2 g)))
        (advance_game e0 (in_play \<lparr>px = 30, py = 40\<rparr> 1)) = Some (100, 100)"
proof -
  let ?i = "(MatchController_init 0 \<lparr>px = 30, py = 40\<rparr>)\<lparr>controls := buttons\<rparr>"
  let ?p = "in_play \<lparr>px = 30, py = 40\<rparr> 1"
  have ev: "map_option (\<lambda>g. (vitality (combatant1 g), vitality (combatant2 g)))
     (run (enter_rounds ''1'' @ to_the_corner) ?i) = Some (5, 100)"
    "map_option (\<lambda>g. (vitality (combatant1 g), vitality (combatant2 g)))
        (advance_game e0 ?p) = Some (100, 100)"
    by code_simp+
  then obtain g g1 where g: "run (enter_rounds ''1'' @ to_the_corner) ?i = Some g"
    and g1: "advance_game e0 ?p = Some g1"
    by auto
  have s: "vitality (combatant1 ?p) \<le> 100" "vitality (combatant2 ?p) \<le> 100"
    by (simp_all add: in_play_def fresh_def MatchController_init_def spawn_values)
  from health_never_exceeds_100 [where ss = "enter_rounds ''1'' @ to_the_corner" and now = 0
      and food = "\<lparr>px = 30, py = 40\<rparr>" and c = buttons and g = g and a = ?p and e = e0
      and b = g1] g g1 s
  have "vitality (combatant1 g) \<le> 100" "vitality (combatant1 g1) \<le> 100"
    by simp_all
  then show ?thesis
    using ev s by simp
qed

text \<open>
  C2 as stated fails. Play starts with one round; combatant 1 turns up, left and up
  again, walks up the first column and stands on \<open>(0, 1)\<close> with health 5; the next tick
  puts its head on \<open>(0, 0)\<close>, where both edge checks subtract 5, and leaves it with health
  \<open>- 5\<close>.
\<close>

theorem health_below_zero:
  "map_option (\<lambda>g. (vitality (combatant1 g), segments (combatant1 g)))
     (run (enter_rounds ''1'' @ to_the_corner) (fresh \<lparr>px = 30, py = 40\<rparr>))
     = Some (5, [\<lparr>px = 0, py = 1\<rparr>])
   \<and> map_option (\<lambda>g. (vitality (combatant1 g), segments (combatant1 g)))
       (run (enter_rounds ''1'' @ to_the_corner @ [Tick e0]) (fresh \<lparr>px = 30, py = 40\<rparr>))
     = Some (- 5, [\<lparr>px = 0, py = 0\<rparr>])"
  by code_simp

section \<open>No exception\<close>

text \<open>
  C8. From the initial state, whatever the buttons, every sequence of ticks and of event
  handling returns normally and leaves both bodies non-empty, so that no read of
  \<^verbatim>\<open>segments[0]\<close> or \<^verbatim>\<open>segments[-1]\<close> and no \<^verbatim>\<open>list.remove\<close> raises; the ValueError of \<^verbatim>\<open>int\<close> is
  caught. This includes the ticks that end a battle and the clicks on the replay button,
  where the archiving of the scores and the restart are the definitions modelled from the
  spec, which return normally on every state.
\<close>

theorem no_exception_in_any_run:
  "(\<exists>g. run ss ((MatchController_init now food)\<lparr>controls := c\<rparr>) = Some g
        \<and> segments (combatant1 g) \<noteq> [] \<and> segments (combatant2 g) \<noteq> [])
   \<and> (\<exists>g'. archive_scores g0 = Some g') \<and> (\<exists>g'. restart_battle e g0 = Some g')"
proof -
  have "bodies_ok ((MatchController_init now food)\<lparr>controls := c\<rparr>)"
    by (rule initial_state_ok)
  from run_total [OF this, of ss] show ?thesis
    by (auto simp: bodies_ok_def archive_scores_def restart_battle_def)
qed

section \<open>The end of a battle\<close>

lemma interactions_after_reset:
  "\<exists>g'. interactions e (initialize_next_battle e x) = Some g'
     \<and> session_kept (initialize_next_battle e x) g'
     \<and> vitality (combatant1 g') = 100 \<and> vitality (combatant2 g') = 100
     \<and> hd (segments (combatant1 g')) = \<lparr>px = 5, py = 22\<rparr>
     \<and> hd (segments (combatant2 g')) = \<lparr>px = 55, py = 22\<rparr>
     \<and> move_direction (combatant1 g') = MOVE_RIGHT
     \<and> move_direction (combatant2 g') = MOVE_LEFT
     \<and> restorativeOrbs g' = [] \<and> lastOrbRegen g' = reset_clock e
     \<and> (reset_food e \<noteq> \<lparr>px = 5, py = 22\<rparr> \<and> reset_food e \<noteq> \<lparr>px = 55, py = 22\<rparr> \<longrightarrow>
          combatant1 g' = spawn1 \<and> combatant2 g' = spawn2 \<and> nourishment g' = reset_food e)"
  by (simp add: interactions_def initialize_next_battle_def spawn_values
      combatant_collisions_eq feed1_eq feed2_eq bodies_ok_def session_kept_def)

lemma tick_ends_battle:
  assumes "bodies_ok g" and "downed_after_edges e g"
  shows "\<exists>g'. advance_game e g = Some g'
     \<and> totalRounds g' = totalRounds g \<and> isInPlay g' = isInPlay g
     \<and> battleScores g' = (fst (battleScores g) @ [tally (combatant1 g)],
                           snd (battleScores g) @ [tally (combatant2 g)])
     \<and> (if currentBattle g < totalRounds g
         then currentBattle g' = currentBattle g + 1 \<and> isOver g' = isOver g
            \<and> vitality (combatant1 g') = 100 \<and> vitality (combatant2 g') = 100
            \<and> hd (segments (combatant1 g')) = \<lparr>px = 5, py = 22\<rparr>
            \<and> hd (segments (combatant2 g')) = \<lparr>px = 55, py = 22\<rparr>
            \<and> move_direction (combatant1 g') = MOVE_RIGHT
            \<and> move_direction (combatant2 g') = MOVE_LEFT
            \<and> restorativeOrbs g' = [] \<and> lastOrbRegen g' = reset_clock e
            \<and> (reset_food e \<noteq> \<lparr>px = 5, py = 22\<rparr> \<and> reset_food e \<noteq> \<lparr>px = 55, py = 22\<rparr> \<longrightarrow>
                 combatant1 g' = spawn1 \<and> combatant2 g' = spawn2
                 \<and> nourishment g' = reset_food e)
         else currentBattle g' = currentBattle g \<and> isOver g')"
proof -
  from move_and_edges_props [OF assms(1), of e] obtain g1 where 1:
    "move_and_edges e g = Some g1" "session_kept g g1" "bodies_ok g1"
    "tally (combatant1 g1) = tally (combatant1 g)" "tally (combatant2 g1) = tally (combatant2 g)"
    by blast
  have d: "downed g1"
    using assms(2) by (simp add: downed_after_edges_eq [OF 1(1)])
  let ?a = "g1\<lparr>battleScores := (fst (battleScores g1) @ [tally (combatant1 g1)],
                                  snd (battleScores g1) @ [tally (combatant2 g1)])\<rparr>"
  show ?thesis
  proof (cases "currentBattle g < totalRounds g")
    case True
    let ?x = "?a\<lparr>currentBattle := currentBattle g1 + 1\<rparr>"
    have 2: "terminate_battle e g1 = Some (initialize_next_battle e ?x)"
      using d True 1(2) by (simp add: terminate_battle_cases session_kept_def)
    from interactions_after_reset [of e ?x] obtain g' where 3:
      "interactions e (initialize_next_battle e ?x) = Some g'"
      "session_kept (initialize_next_battle e ?x) g'"
      "vitality (combatant1 g') = 100" "vitality (combatant2 g') = 100"
      "hd (segments (combatant1 g')) = \<lparr>px = 5, py = 22\<rparr>"
      "hd (segments (combatant2 g')) = \<lparr>px = 55, py = 22\<rparr>"
      "move_direction (combatant1 g') = MOVE_RIGHT"
      "move_direction (combatant2 g') = MOVE_LEFT"
      "restorativeOrbs g' = []" "lastOrbRegen g' = reset_clock e"
      "reset_food e \<noteq> \<lparr>px = 5, py = 22\<rparr> \<and> reset_food e \<noteq> \<lparr>px = 55, py = 22\<rparr> \<longrightarrow>
          combatant1 g' = spawn1 \<and> combatant2 g' = spawn2 \<and> nourishment g' = reset_food e"
      by blast
    have "advance_game e g = Some g'"
      by (simp add: advance_game_def 1(1) 2 3(1))
    then show ?thesis
      using True 1(2,4,5) 3
      by (simp add: session_kept_def initialize_next_battle_def)
  next
    case False
    let ?x = "?a\<lparr>isOver := True\<rparr>"
    have 2: "terminate_battle e g1 = Some ?x"
      using d False 1(2) by (simp add: terminate_battle_cases session_kept_def)
    have "bodies_ok ?x" using 1(3) by (simp add: bodies_ok_def)
    from interactions_props [OF this, of e] obtain g' where 3:
      "interactions e ?x = Some g'" "session_kept ?x g'"
      by blast
    have "advance_game e g = Some g'"
      by (simp add: advance_game_def 1(1) 2 3(1))
    then show ?thesis
      using False 1(2,4,5) 3 by (simp add: session_kept_def)
  qed
qed

lemma do_step_count:
  assumes "play_step s" and "do_step s g = Some g1"
  shows "totalRounds g1 = totalRounds g \<and> isInPlay g1 = isInPlay g \<and>
     (if ends_battle s g
      then (if currentBattle g < totalRounds g
            then currentBattle g1 = currentBattle g + 1 \<and> isOver g1 = isOver g
            else currentBattle g1 = currentBattle g \<and> isOver g1)
      else currentBattle g1 = currentBattle g \<and> isOver g1 = isOver g)"
proof (cases s)
  case (Tick e)
  with assms(2) have "advance_game e g = Some g1" by simp
  from advance_game_session [OF this] show ?thesis
    using Tick by simp
next
  case (Input e "is")
  with assms have "list_all no_click is" "manage_interactions e is g = Some g1"
    by simp_all
  from manage_interactions_no_click [OF this] show ?thesis
    using Input by (simp add: session_kept_def)
qed

lemma run_battle_count:
  assumes "run ss g = Some g'" and "list_all play_step ss"
    and "currentBattle g \<le> totalRounds g"
  shows "totalRounds g' = totalRounds g \<and> isInPlay g' = isInPlay g
     \<and> currentBattle g' = min (currentBattle g + int (battle_ends ss g)) (totalRounds g)
     \<and> (isOver g' \<longleftrightarrow> isOver g \<or> totalRounds g < currentBattle g + int (battle_ends ss g))"
  using assms
proof (induction ss arbitrary: g)
  case Nil
  then show ?case by simp
next
  case (Cons s rest)
  from Cons.prems obtain g1 where 1: "do_step s g = Some g1" and 2: "run rest g1 = Some g'"
    by (auto simp: bind_eq_Some_conv)
  from Cons.prems(2) have p: "play_step s" "list_all play_step rest" by simp_all
  note c = do_step_count [OF p(1) 1]
  have le: "currentBattle g1 \<le> totalRounds g1"
    using c Cons.prems(3) by (auto split: if_splits)
  note ih = Cons.IH [OF 2 p(2) le]
  have n: "battle_ends (s # rest) g = (if ends_battle s g then 1 else 0) + battle_ends rest g1"
    by (simp add: 1)
  show ?case
    using c ih Cons.prems(3) unfolding n by (auto split: if_splits)
qed

lemma run_append: "run (xs @ ys) g = run xs g \<bind> run ys"
proof (induction xs arbitrary: g)
  case Nil
  then show ?case by simp
next
  case (Cons x xs)
  show ?case
    by (cases "do_step x g") (simp_all add: Cons.IH)
qed

lemma battle_ends_snoc:
  assumes "run xs g = Some g1" and "do_step s g1 = Some g2"
  shows "battle_ends (xs @ [s]) g = battle_ends xs g + (if ends_battle s g1 then 1 else 0)"
  using assms
proof (induction xs arbitrary: g)
  case Nil
  then show ?case by simp
next
  case (Cons x xs)
  from Cons.prems(1) obtain h where h: "do_step x g = Some h" "run xs h = Some g1"
    by (auto simp: bind_eq_Some_conv)
  from Cons.IH [OF h(2) Cons.prems(2)] h(1) show ?case by simp
qed

text \<open>
  C3. A tick in which a combatant's health is at most 0 after the edge checks, both
  bodies being non-empty, returns normally; each combatant's score has been appended to
  its history; the number of rounds and the in-play flag are unchanged. If the battle
  number was below the number of rounds it is one more now, the session is not over, and
  the tick ends with both combatants at health 100, their heads on the spawn cells
  \<open>(5, 22)\<close> and \<open>(55, 22)\<close> with the spawn directions, no orb, and the orb timer reset;
  both combatants are exactly the spawn values and the food is the new draw unless that
  draw is a spawn cell (the rest of the tick then feeds the new combatant). Otherwise the
  battle number is unchanged and the session is over. Hence, over a run of ticks and key
  events that starts in battle 1 of 3 and not over: after three battle-ending ticks the
  session is over, and after two it is not, play goes on, the battle number is 3, and at
  the end of the second of these ticks both combatants stand at their spawn cells with
  health 100.
\<close>

theorem battle_end_sequence:
  "(segments (combatant1 g) \<noteq> [] \<and> segments (combatant2 g) \<noteq> [] \<and> downed_after_edges e g \<longrightarrow>
     (\<exists>g'. advance_game e g = Some g'
       \<and> totalRounds g' = totalRounds g \<and> isInPlay g' = isInPlay g
       \<and> battleScores g' = (fst (battleScores g) @ [tally (combatant1 g)],
                             snd (battleScores g) @ [tally (combatant2 g)])
       \<and> (if currentBattle g < totalRounds g
           then currentBattle g' = currentBattle g + 1 \<and> isOver g' = isOver g
              \<and> vitality (combatant1 g') = 100 \<and> vitality (combatant2 g') = 100
              \<and> hd (segments (combatant1 g')) = \<lparr>px = 5, py = 22\<rparr>
              \<and> hd (segments (combatant2 g')) = \<lparr>px = 55, py = 22\<rparr>
              \<and> move_direction (combatant1 g') = MOVE_RIGHT
              \<and> move_direction (combatant2 g') = MOVE_LEFT
              \<and> restorativeOrbs g' = [] \<and> lastOrbRegen g' = reset_clock e
              \<and> (reset_food e \<noteq> \<lparr>px = 5, py = 22\<rparr> \<and> reset_food e \<noteq> \<lparr>px = 55, py = 22\<rparr> \<longrightarrow>
                   combatant1 g' = spawn1 \<and> combatant2 g' = spawn2
                   \<and> nourishment g' = reset_food e)
           else currentBattle g' = currentBattle g \<and> isOver g')))
   \<and> (run ss a = Some b \<and> list_all play_step ss
       \<and> currentBattle a = 1 \<and> totalRounds a = 3 \<and> \<not> isOver a \<longrightarrow>
        (battle_ends ss a = 3 \<longrightarrow> isOver b)
      \<and> (battle_ends ss a = 2 \<longrightarrow>
           \<not> isOver b \<and> isInPlay b = isInPlay a \<and> currentBattle b = 3)
      \<and> (battle_ends ss a = 2 \<and> (\<exists>xs t. ss = xs @ [Tick t] \<and> battle_ends xs a = 1) \<longrightarrow>
           vitality (combatant1 b) = 100 \<and> vitality (combatant2 b) = 100
         \<and> hd (segments (combatant1 b)) = \<lparr>px = 5, py = 22\<rparr>
         \<and> hd (segments (combatant2 b)) = \<lparr>px = 55, py = 22\<rparr>))"
proof (intro conjI impI)
  assume "segments (combatant1 g) \<noteq> [] \<and> segments (combatant2 g) \<noteq> [] \<and> downed_after_edges e g"
  then have "bodies_ok g" "downed_after_edges e g"
    by (simp_all add: bodies_ok_def)
  then show "\<exists>g'. advance_game e g = Some g'
       \<and> totalRounds g' = totalRounds g \<and> isInPlay g' = isInPlay g
       \<and> battleScores g' = (fst (battleScores g) @ [tally (combatant1 g)],
                             snd (battleScores g) @ [tally (combatant2 g)])
       \<and> (if currentBattle g < totalRounds g
           then currentBattle g' = currentBattle g + 1 \<and> isOver g' = isOver g
              \<and> vitality (combatant1 g') = 100 \<and> vitality (combatant2 g') = 100
              \<and> hd (segments (combatant1 g')) = \<lparr>px = 5, py = 22\<rparr>
              \<and> hd (segments (combatant2 g')) = \<lparr>px = 55, py = 22\<rparr>
              \<and> move_direction (combatant1 g') = MOVE_RIGHT
              \<and> move_direction (combatant2 g') = MOVE_LEFT
              \<and> restorativeOrbs g' = [] \<and> lastOrbRegen g' = reset_clock e
              \<and> (reset_food e \<noteq> \<lparr>px = 5, py = 22\<rparr> \<and> reset_food e \<noteq> \<lparr>px = 55, py = 22\<rparr> \<longrightarrow>
                   combatant1 g' = spawn1 \<and> combatant2 g' = spawn2
                   \<and> nourishment g' = reset_food e)
           else currentBattle g' = currentBattle g \<and> isOver g')"
    by (rule tick_ends_battle)
next
  assume h: "run ss a = Some b \<and> list_all play_step ss
       \<and> currentBattle a = 1 \<and> totalRounds a = 3 \<and> \<not> isOver a"
  then have c: "totalRounds b = 3" "isInPlay b = isInPlay a"
    "currentBattle b = min (1 + int (battle_ends ss a)) 3"
    "isOver b \<longleftrightarrow> 3 < 1 + int (battle_ends ss a)"
    using run_battle_count [of ss a b] by simp_all
  {
    assume "battle_ends ss a = 3"
    then show "isOver b" using c by simp
  }
  {
    assume "battle_ends ss a = 2"
    then show "\<not> isOver b" "isInPlay b = isInPlay a" "currentBattle b = 3"
      using c by simp_all
  }
  {
    assume "battle_ends ss a = 2 \<and> (\<exists>xs t. ss = xs @ [Tick t] \<and> battle_ends xs a = 1)"
    then obtain xs t where n: "battle_ends ss a = 2" and ss: "ss = xs @ [Tick t]"
      and n1: "battle_ends xs a = 1"
      by blast
    from h ss obtain m where m: "run xs a = Some m" "advance_game t m = Some b"
      by (auto simp: run_append bind_eq_Some_conv)
    from h ss have p: "list_all play_step xs" by simp
    from run_battle_count [OF m(1) p] h n1
    have cm: "totalRounds m = 3" "currentBattle m = 2" by simp_all
    have "battle_ends (xs @ [Tick t]) a =
        battle_ends xs a + (if ends_battle (Tick t) m then 1 else 0)"
      by (rule battle_ends_snoc [OF m(1), of _ b]) (simp add: m(2))
    with n n1 have "ends_battle (Tick t) m"
      unfolding ss by (cases "ends_battle (Tick t) m") simp_all
    then have d: "downed_after_edges t m" by simp
    have ok: "bodies_ok m" by (rule advance_game_bodies [OF m(2)])
    have lt: "currentBattle m < totalRounds m" using cm by simp
    from tick_ends_battle [OF ok d] have
      "vitality (combatant1 b) = 100 \<and> vitality (combatant2 b) = 100
       \<and> hd (segments (combatant1 b)) = \<lparr>px = 5, py = 22\<rparr>
       \<and> hd (segments (combatant2 b)) = \<lparr>px = 55, py = 22\<rparr>"
      unfolding m(2) if_P [OF lt] by simp
    then show "vitality (combatant1 b) = 100" "vitality (combatant2 b) = 100"
      "hd (segments (combatant1 b)) = \<lparr>px = 5, py = 22\<rparr>"
      "hd (segments (combatant2 b)) = \<lparr>px = 55, py = 22\<rparr>"
      by simp_all
  }
qed

theorem battle_end_sequence_witness:
  "segments (combatant1 last_stand) \<noteq> [] \<and> segments (combatant2 last_stand) \<noteq> []
   \<and> downed_after_edges e0 last_stand
   \<and> currentBattle last_stand = 1 \<and> totalRounds last_stand = 3
   \<and> map_option (\<lambda>g. (currentBattle g, isOver g, battleScores g, vitality (combatant1 g),
                        segments (combatant1 g), restorativeOrbs g))
        (advance_game e0 last_stand)
       = Some (2, False, ([15], [0]), 100, [\<lparr>px = 5, py = 22\<rparr>], [])
   \<and> list_all play_step (lost_battle @ lost_battle @ lost_battle)
   \<and> battle_ends (lost_battle @ lost_battle @ lost_battle) (in_play \<lparr>px = 30, py = 40\<rparr> 3) = 3
   \<and> map_option isOver
        (run (lost_battle @ lost_battle @ lost_battle) (in_play \<lparr>px = 30, py = 40\<rparr> 3))
       = Some True
   \<and> battle_ends (lost_battle @ lost_battle) (in_play \<lparr>px = 30, py = 40\<rparr> 3) = 2
   \<and> battle_ends (lost_battle @ butlast lost_battle) (in_play \<lparr>px = 30, py = 40\<rparr> 3) = 1
   \<and> map_option (\<lambda>g. (currentBattle g, isOver g, isInPlay g, vitality (combatant1 g),
                        vitality (combatant2 g), segments (combatant1 g), segments (combatant2 g)))
        (run (lost_battle @ lost_battle) (in_play \<lparr>px = 30, py = 40\<rparr> 3))
       = Some (3, False, True, 100, 100, [\<lparr>px = 5, py = 22\<rparr>], [\<lparr>px = 55, py = 22\<rparr>])"
proof -
  let ?a = "in_play \<lparr>px = 30, py = 40\<rparr> 3"
  let ?s3 = "lost_battle @ lost_battle @ lost_battle"
  let ?s2 = "lost_battle @ lost_battle"
  have st: "segments (combatant1 last_stand) \<noteq> []" "segments (combatant2 last_stand) \<noteq> []"
    "currentBattle last_stand = 1" "totalRounds last_stand = 3"
    "currentBattle ?a = 1" "totalRounds ?a = 3" "\<not> isOver ?a"
    by (simp_all add: last_stand_def in_play_def fresh_def MatchController_init_def spawn_values)
  have d: "downed_after_edges e0 last_stand"
    by code_simp
  have t: "map_option (\<lambda>g. (currentBattle g, isOver g, battleScores g, vitality (combatant1 g),
                        segments (combatant1 g), restorativeOrbs g))
        (advance_game e0 last_stand)
       = Some (2, False, ([15], [0]), 100, [\<lparr>px = 5, py = 22\<rparr>], [])"
    by code_simp
  have p: "list_all play_step ?s3" "list_all play_step ?s2"
    by (simp_all add: lost_battle_def list_all_iff)
  have n: "battle_ends ?s3 ?a = 3" "battle_ends ?s2 ?a = 2"
    "battle_ends (lost_battle @ butlast lost_battle) ?a = 1"
    by code_simp+
  have r3: "map_option isOver (run ?s3 ?a) = Some True"
    by code_simp
  have r2: "map_option (\<lambda>g. (currentBattle g, isOver g, isInPlay g, vitality (combatant1 g),
                        vitality (combatant2 g), segments (combatant1 g), segments (combatant2 g)))
        (run ?s2 ?a)
       = Some (3, False, True, 100, 100, [\<lparr>px = 5, py = 22\<rparr>], [\<lparr>px = 55, py = 22\<rparr>])"
    by code_simp
  have sp: "?s2 = (lost_battle @ butlast lost_battle) @ [Tick e0]"
    by (simp add: lost_battle_def butlast_append numeral_eq_Suc)
  from r3 obtain b3 where b3: "run ?s3 ?a = Some b3" by auto
  from r2 obtain b2 where b2: "run ?s2 ?a = Some b2" by auto
  from battle_end_sequence [where g = last_stand and e = e0 and ss = ?s3 and a = ?a and b = b3]
    st d p n b3
  have "(\<exists>g'. advance_game e0 last_stand = Some g' \<and> currentBattle g' = 2) \<and> isOver b3"
    by simp blast
  moreover
  from battle_end_sequence [where g = last_stand and e = e0 and ss = ?s2 and a = ?a and b = b2]
    st p n b2 sp
  have "currentBattle b2 = 3" "vitality (combatant1 b2) = 100"
    by blast+
  ultimately show ?thesis
    using st d t p n r3 r2 by simp
qed

section \<open>Where the code departs from its own intent\<close>

text \<open>
  C4. The block that ends the battle is not followed by a \<^verbatim>\<open>return\<close>, so the orb loop, the
  collision checks and the food checks of the same tick still run. Play starts with one
  round and the food on \<open>(0, 0)\<close>; combatant 1 walks to \<open>(0, 1)\<close> and has health 5 and score 0
  there. In the next tick an orb spawns on \<open>(0, 0)\<close> and the head enters that cell: the
  edge checks leave health \<open>- 5\<close>, the battle ends (scores \<open>[0]\<close> archived, session over),
  and then the orb is consumed (health 25) and the food is eaten (score 5, length 2).
\<close>

theorem checks_run_after_battle_end:
  "map_option (\<lambda>g. (isOver g, battleScores g, vitality (combatant1 g), tally (combatant1 g),
                      segments (combatant1 g), restorativeOrbs g, nourishment g))
     (run (enter_rounds ''1'' @ to_the_corner) (fresh \<lparr>px = 0, py = 0\<rparr>))
     = Some (False, ([], []), 5, 0, [\<lparr>px = 0, py = 1\<rparr>], [], \<lparr>px = 0, py = 0\<rparr>)
   \<and> map_option (\<lambda>g. (isOver g, battleScores g, vitality (combatant1 g), tally (combatant1 g),
                        segments (combatant1 g), restorativeOrbs g, nourishment g))
       (run (enter_rounds ''1'' @ to_the_corner @ [Tick e_orb]) (fresh \<lparr>px = 0, py = 0\<rparr>))
     = Some (True, ([0], [0]), 25, 5, [\<lparr>px = 0, py = 0\<rparr>, \<lparr>px = 0, py = 0\<rparr>], [],
             \<lparr>px = 30, py = 40\<rparr>)"
  by code_simp

text \<open>
  C6. The confirm button accepts every text that \<^verbatim>\<open>int\<close> can read, zero included: after
  the start button, the key 0 and the confirm button, play has started with zero rounds.
  A text that \<^verbatim>\<open>int\<close> cannot read, such as the empty one, is discarded.
\<close>

theorem zero_rounds_start_play:
  "py_int ''0'' = Some 0
   \<and> map_option (\<lambda>g. (isAcceptingInput g, enteredText g, isInPlay g, totalRounds g))
       (run (butlast (enter_rounds ''0'')) (fresh \<lparr>px = 30, py = 40\<rparr>))
     = Some (True, ''0'', False, 0)
   \<and> map_option (\<lambda>g. (isAcceptingInput g, enteredText g, isInPlay g, totalRounds g))
       (run (enter_rounds ''0'') (fresh \<lparr>px = 30, py = 40\<rparr>))
     = Some (False, [], True, 0)
   \<and> map_option (\<lambda>g. (isAcceptingInput g, enteredText g, isInPlay g, totalRounds g))
       (run (enter_rounds []) (fresh \<lparr>px = 30, py = 40\<rparr>))
     = Some (True, [], False, 0)"
  by code_simp

text \<open>
  C7. The guard compares a key with the direction of the moment, and all events of a
  frame are handled in one call: combatant 1, moving right, is turned up by the first key
  and left by the second, and the next tick moves it left. A single key for the opposite
  direction is ignored.
\<close>

theorem two_keys_reverse_direction:
  "move_direction (combatant1 (in_play \<lparr>px = 30, py = 40\<rparr> 1)) = MOVE_RIGHT
   \<and> map_option (\<lambda>g. move_direction (combatant1 g))
       (manage_interactions e0 [KEYDOWN K_a ''a''] (in_play \<lparr>px = 30, py = 40\<rparr> 1))
     = Some MOVE_RIGHT
   \<and> map_option (\<lambda>g. move_direction (combatant1 g))
       (manage_interactions e0 [KEYDOWN K_w ''w'', KEYDOWN K_a ''a'']
          (in_play \<lparr>px = 30, py = 40\<rparr> 1))
     = Some MOVE_LEFT
   \<and> map_option (\<lambda>g. segments (combatant1 g))
       (run [Input e0 [KEYDOWN K_w ''w'', KEYDOWN K_a ''a''], Tick e0]
          (in_play \<lparr>px = 30, py = 40\<rparr> 1))
     = Some [\<lparr>px = 4, py = 22\<rparr>]"
  by code_simp

end
